theory Spec2Isabelle
  imports Main "HOL-Library.Sublist"
begin

section \<open>JavaScript values\<close>

text \<open>
  The value that \<^verbatim>\<open>resp.json()\<close> resolves with, and every value \<^verbatim>\<open>makeRequest\<close> returns, is a
  JavaScript value. Strings are their UTF-8 bytes. An object is the list of its own
  properties in enumeration order. \<open>JUndefined\<close> is what reading a missing property gives;
  a parsed JSON body never contains it.

  A Number is a decimal or an infinity: \<open>Finite neg s q\<close> is \<open>s\<close> times ten to the power
  \<open>q\<close>, negated when \<open>neg\<close> holds. With no trailing zero in \<open>s\<close> these are the digits and the
  exponent that \<^verbatim>\<open>Number::toString\<close> prints a double from; \<open>Finite True 0 0\<close> is the negative
  zero. A decimal that is not the shortest one of any double has no counterpart in
  JavaScript. NaN is left out: no JSON text gives it.
\<close>

datatype number = Finite bool nat int | Infinite bool

datatype jsval =
    JUndefined
  | JNull
  | JBool bool
  | JNum number
  | JStr string
  | JArr "jsval list"
  | JObj "(string \<times> jsval) list"

datatype exn =
    Error string
  | TypeError string
  | SyntaxError string

text \<open>
  \<^verbatim>\<open>!v\<close> is \<open>\<not> truthy v\<close>: false, both zeros, the empty string, null and undefined are falsy.
\<close>

fun nonzero :: "number \<Rightarrow> bool" where
  "nonzero (Finite neg s q) = (s \<noteq> 0)"
| "nonzero (Infinite neg) = True"

fun truthy :: "jsval \<Rightarrow> bool" where
  "truthy JUndefined = False"
| "truthy JNull = False"
| "truthy (JBool b) = b"
| "truthy (JNum n) = nonzero n"
| "truthy (JStr s) = (s \<noteq> [])"
| "truthy (JArr xs) = True"
| "truthy (JObj kvs) = True"

text \<open>
  The property read \<^verbatim>\<open>data.k\<close>, for the five names the adapter reads (\<^verbatim>\<open>success\<close>,
  \<^verbatim>\<open>error\<close>, \<^verbatim>\<open>upgrade\<close>, \<^verbatim>\<open>retry_after_seconds\<close>, \<^verbatim>\<open>data\<close>), none of which is a property
  of a built-in prototype. Reading a property of null or undefined throws a TypeError;
  on a boolean, a number, a string or an array these names are undefined.
\<close>

fun get_prop :: "jsval \<Rightarrow> string \<Rightarrow> exn + jsval" where
  "get_prop JUndefined k =
     Inl (TypeError (''Cannot read properties of undefined (reading '' @ [CHR 0x27] @ k @ [CHR 0x27] @ '')''))"
| "get_prop JNull k =
     Inl (TypeError (''Cannot read properties of null (reading '' @ [CHR 0x27] @ k @ [CHR 0x27] @ '')''))"
| "get_prop (JObj kvs) k = Inr (case map_of kvs k of None \<Rightarrow> JUndefined | Some v \<Rightarrow> v)"
| "get_prop v k = Inr JUndefined"

section \<open>The credential\<close>

text \<open>\<^verbatim>\<open>process.env\<close> is a dictionary from variable names to strings.\<close>

type_synonym env = "string \<rightharpoonup> string"

definition missing_key_message :: string where
  \<open>missing_key_message =
     ''TRADEKIX_API_KEY environment variable is required.'' @ [CHR 0x0A] @
     ''Get a free key (100 calls/day) at https://www.tradekix.ai/ai-agent-access'' @ [CHR 0x0A] @
     ''Or run: curl -X POST https://tradekix-alpha.vercel.app/api/v1/connect '' @
     ''-H "Content-Type: application/json" '' @
     ''-d '' @ [CHR 0x27] @
     ''{"agent_name":"MyClaude","email":"you@example.com","source":"mcp"}'' @ [CHR 0x27]\<close>

text \<open>\<^verbatim>\<open>if (!key) throw\<close>: an unset variable and the empty string are both falsy.\<close>

definition getApiKey :: "env \<Rightarrow> exn + string" where
  "getApiKey env =
     (case env ''TRADEKIX_API_KEY'' of
        None \<Rightarrow> Inl (Error missing_key_message)
      | Some key \<Rightarrow> if key = [] then Inl (Error missing_key_message) else Inr key)"

section \<open>The request URL\<close>

definition BASE_URL :: string where
  "BASE_URL = ''https://tradekix-alpha.vercel.app/api/v1''"

text \<open>
  A URL object is the address it was built from and the list of its query entries
  (\<^verbatim>\<open>url.searchParams\<close>). \<^verbatim>\<open>new URL(s)\<close> is modelled for an address without a query or
  fragment part, which is what the ten handlers build: its entry list starts empty.
\<close>

record url =
  address :: string
  searchParams :: "(string \<times> string) list"

definition new_URL :: "string \<Rightarrow> url" where
  "new_URL s = \<lparr>address = s, searchParams = []\<rparr>"

text \<open>
  \<^verbatim>\<open>searchParams.set(k, v)\<close>: the first entry named \<open>k\<close> takes the value and the later ones
  are removed; with no such entry, one is appended.
\<close>

fun searchParams_set :: "string \<Rightarrow> string \<Rightarrow> (string \<times> string) list \<Rightarrow> (string \<times> string) list" where
  "searchParams_set k v [] = [(k, v)]"
| "searchParams_set k v ((k', v') # es) =
     (if k' = k then (k, v) # filter (\<lambda>e. fst e \<noteq> k) es
      else (k', v') # searchParams_set k v es)"

text \<open>
  \<^verbatim>\<open>url.toString()\<close> writes the entries in the \<^verbatim>\<open>application/x-www-form-urlencoded\<close> form:
  letters, digits and \<^verbatim>\<open>* - . _\<close> stand for themselves, a space is \<^verbatim>\<open>+\<close>, every other
  byte is \<^verbatim>\<open>%\<close> and two upper-case hexadecimal digits.
\<close>

definition hex_upper :: "nat \<Rightarrow> char" where
  "hex_upper n = ''0123456789ABCDEF'' ! (n mod 16)"

definition urlencode_byte :: "char \<Rightarrow> string" where
  "urlencode_byte c =
     (let n = of_char c :: nat in
      if (48 \<le> n \<and> n \<le> 57) \<or> (65 \<le> n \<and> n \<le> 90) \<or> (97 \<le> n \<and> n \<le> 122)
         \<or> n = 42 \<or> n = 45 \<or> n = 46 \<or> n = 95 then [c]
      else if n = 32 then ''+''
      else [CHR ''%'', hex_upper (n div 16), hex_upper n])"

definition urlencode :: "string \<Rightarrow> string" where
  "urlencode s = concat (map urlencode_byte s)"

fun join :: "string \<Rightarrow> string list \<Rightarrow> string" where
  "join sep [] = []"
| "join sep [x] = x"
| "join sep (x # y # ys) = x @ sep @ join sep (y # ys)"

definition query_string :: "(string \<times> string) list \<Rightarrow> string" where
  "query_string es = join ''&'' (map (\<lambda>e. urlencode (fst e) @ ''='' @ urlencode (snd e)) es)"

definition url_toString :: "url \<Rightarrow> string" where
  "url_toString u =
     (if searchParams u = [] then address u
      else address u @ ''?'' @ query_string (searchParams u))"

section \<open>The upstream service\<close>

text \<open>
  One \<^verbatim>\<open>fetch\<close> call: the URL object whose string is fetched, and the headers. The
  service is a function of the request: the promise is rejected, or it resolves with a
  response whose \<^verbatim>\<open>json()\<close> is rejected or gives the parsed body. The HTTP status is part
  of the response; the adapter never reads it.
\<close>

record request =
  target :: url
  headers :: "(string \<times> string) list"

record response =
  status :: nat
  json :: "exn + jsval"

datatype fetch_result = Rejected exn | Resolved response

type_synonym upstream = "request \<Rightarrow> fetch_result"

text \<open>What a call did: the requests it sent, in order, and how it ended.\<close>

record 'a run =
  requests :: "request list"
  outcome :: "exn + 'a"

section \<open>makeRequest\<close>

text \<open>
  A parameter object is the list of its entries. Its type says string values; the
  adapter also guards against undefined and null, so a value is one of the three.
\<close>

datatype pvalue = PUndefined | PNull | PString string

type_synonym params = "(string \<times> pvalue) list"

text \<open>The body of the \<^verbatim>\<open>forEach\<close> callback.\<close>

fun add_param :: "url \<Rightarrow> string \<times> pvalue \<Rightarrow> url" where
  "add_param u (k, PString v) =
     (if v \<noteq> [] then u\<lparr>searchParams := searchParams_set k v (searchParams u)\<rparr> else u)"
| "add_param u (k, PUndefined) = u"
| "add_param u (k, PNull) = u"

definition build_url :: "string \<Rightarrow> params option \<Rightarrow> url" where
  "build_url endpoint ps =
     (let u = new_URL (BASE_URL @ ''/'' @ endpoint) in
      case ps of None \<Rightarrow> u | Some entries \<Rightarrow> foldl add_param u entries)"

text \<open>The object returned when \<^verbatim>\<open>data.success\<close> is falsy; \<open>d\<close> is not null here.\<close>

definition read_prop :: "jsval \<Rightarrow> string \<Rightarrow> jsval" where
  "read_prop d k = (case get_prop d k of Inl e \<Rightarrow> JUndefined | Inr v \<Rightarrow> v)"

definition error_object :: "jsval \<Rightarrow> jsval" where
  "error_object d =
     JObj ([(''error'', read_prop d ''error'')]
           @ (if truthy (read_prop d ''upgrade'') then [(''upgrade'', read_prop d ''upgrade'')] else [])
           @ (if truthy (read_prop d ''retry_after_seconds'')
              then [(''retry_after_seconds'', read_prop d ''retry_after_seconds'')] else []))"

definition makeRequest :: "env \<Rightarrow> upstream \<Rightarrow> string \<Rightarrow> params option \<Rightarrow> jsval run" where
  "makeRequest env fetch endpoint ps =
     (case getApiKey env of
        Inl e \<Rightarrow> \<lparr>requests = [], outcome = Inl e\<rparr>
      | Inr apiKey \<Rightarrow>
          let req = \<lparr>target = build_url endpoint ps, headers = [(''X-API-Key'', apiKey)]\<rparr> in
          (case fetch req of
             Rejected e \<Rightarrow> \<lparr>requests = [req], outcome = Inl e\<rparr>
           | Resolved resp \<Rightarrow>
               (case json resp of
                  Inl e \<Rightarrow> \<lparr>requests = [req], outcome = Inl e\<rparr>
                | Inr d \<Rightarrow>
                    (case get_prop d ''success'' of
                       Inl e \<Rightarrow> \<lparr>requests = [req], outcome = Inl e\<rparr>
                     | Inr s \<Rightarrow>
                         if \<not> truthy s then \<lparr>requests = [req], outcome = Inr (error_object d)\<rparr>
                         else \<lparr>requests = [req], outcome = Inr (read_prop d ''data'')\<rparr>))))"

section \<open>JSON.stringify\<close>

text \<open>
  \<^verbatim>\<open>JSON.stringify(v, null, 2)\<close>. A string is quoted with the escapes of the standard: the
  quotation mark, the backslash, the five short escapes and \<^verbatim>\<open>\u00xx\<close> for the other
  control characters. An undefined value has no text: at the top the result is
  undefined (\<open>None\<close>), in an array it is written \<^verbatim>\<open>null\<close>, in an object the property is
  left out.
\<close>

definition hex_lower :: "nat \<Rightarrow> char" where
  "hex_lower n = ''0123456789abcdef'' ! (n mod 16)"

definition quote_char :: "char \<Rightarrow> string" where
  "quote_char c =
     (let n = of_char c :: nat in
      if n = 0x22 then [CHR 0x5C, CHR 0x22]
      else if n = 0x5C then [CHR 0x5C, CHR 0x5C]
      else if n = 8 then [CHR 0x5C, CHR ''b'']
      else if n = 9 then [CHR 0x5C, CHR ''t'']
      else if n = 10 then [CHR 0x5C, CHR ''n'']
      else if n = 12 then [CHR 0x5C, CHR ''f'']
      else if n = 13 then [CHR 0x5C, CHR ''r'']
      else if n < 32 then [CHR 0x5C, CHR ''u'', CHR ''0'', CHR ''0'', hex_lower (n div 16), hex_lower n]
      else [c])"

definition quote :: "string \<Rightarrow> string" where
  "quote s = [CHR 0x22] @ concat (map quote_char s) @ [CHR 0x22]"

definition digit_char :: "nat \<Rightarrow> char" where
  "digit_char n = char_of (48 + n mod 10)"

fun digits :: "nat \<Rightarrow> string" where
  "digits n = (if n < 10 then [digit_char n] else digits (n div 10) @ [digit_char n])"

declare digits.simps [simp del]

text \<open>
  \<^verbatim>\<open>Number::toString\<close> in radix 10. With \<open>k\<close> the number of digits of \<open>s\<close> and \<open>n = k + q\<close> the
  position of the decimal point: the digits followed by zeros when \<open>k \<le> n \<le> 21\<close>, the digits
  with a point inside when \<open>0 < n \<le> 21\<close>, \<^verbatim>\<open>0.\<close> with zeros and the digits when \<open>-6 < n \<le> 0\<close>,
  and the exponent form otherwise.
\<close>

definition exponent_text :: "int \<Rightarrow> string" where
  "exponent_text e = (if e < 0 then ''-'' else ''+'') @ digits (nat \<bar>e\<bar>)"

definition decimal_text :: "nat \<Rightarrow> int \<Rightarrow> string" where
  "decimal_text s q =
     (let ds = digits s; k = length ds; n = int k + q in
      if int k \<le> n \<and> n \<le> 21 then ds @ replicate (nat (n - int k)) (CHR ''0'')
      else if 0 < n \<and> n \<le> 21 then take (nat n) ds @ ''.'' @ drop (nat n) ds
      else if - 6 < n \<and> n \<le> 0 then ''0.'' @ replicate (nat (- n)) (CHR ''0'') @ ds
      else if k = 1 then ds @ ''e'' @ exponent_text (n - 1)
      else take 1 ds @ ''.'' @ drop 1 ds @ ''e'' @ exponent_text (n - 1))"

fun Number_toString :: "number \<Rightarrow> string" where
  "Number_toString (Infinite neg) = (if neg then ''-Infinity'' else ''Infinity'')"
| "Number_toString (Finite neg s q) =
     (if s = 0 then ''0'' else (if neg then ''-'' else []) @ decimal_text s q)"

text \<open>\<^verbatim>\<open>JSON.stringify\<close> writes a Number that is not finite as \<^verbatim>\<open>null\<close>.\<close>

fun number_text :: "number \<Rightarrow> string" where
  "number_text (Infinite neg) = ''null''"
| "number_text (Finite neg s q) = Number_toString (Finite neg s q)"

text \<open>
  The text of an array or object from the texts of its parts: \<open>stepback\<close> is the
  indentation of the enclosing line, and the parts are indented by two more spaces.
\<close>

definition wrap :: "string \<Rightarrow> string \<Rightarrow> string \<Rightarrow> string list \<Rightarrow> string" where
  "wrap opening closing stepback partial =
     (if partial = [] then opening @ closing
      else opening @ [CHR 0x0A] @ stepback @ ''  ''
           @ join ('','' @ [CHR 0x0A] @ stepback @ ''  '') partial
           @ [CHR 0x0A] @ stepback @ closing)"

fun serialize :: "string \<Rightarrow> jsval \<Rightarrow> string option"
  and serialize_elements :: "string \<Rightarrow> jsval list \<Rightarrow> string list"
  and serialize_members :: "string \<Rightarrow> (string \<times> jsval) list \<Rightarrow> string list"
where
  "serialize ind JUndefined = None"
| "serialize ind JNull = Some ''null''"
| "serialize ind (JBool b) = Some (if b then ''true'' else ''false'')"
| "serialize ind (JNum n) = Some (number_text n)"
| "serialize ind (JStr s) = Some (quote s)"
| "serialize ind (JArr xs) = Some (wrap ''['' '']'' ind (serialize_elements (ind @ ''  '') xs))"
| "serialize ind (JObj kvs) = Some (wrap ''{'' ''}'' ind (serialize_members (ind @ ''  '') kvs))"
| "serialize_elements ind [] = []"
| "serialize_elements ind (x # xs) =
     (case serialize ind x of None \<Rightarrow> ''null'' | Some s \<Rightarrow> s) # serialize_elements ind xs"
| "serialize_members ind [] = []"
| "serialize_members ind ((k, v) # kvs) =
     (case serialize ind v of
        None \<Rightarrow> serialize_members ind kvs
      | Some s \<Rightarrow> (quote k @ '': '' @ s) # serialize_members ind kvs)"

definition JSON_stringify :: "jsval \<Rightarrow> string option" where
  "JSON_stringify v = serialize [] v"

section \<open>JSON.parse\<close>

text \<open>
  The parser reads a value after optional white space (space, tab, line feed, carriage
  return) and returns it with the rest of the text. A string ends at the first unescaped
  quotation mark; a raw control character is an error. An escape \<^verbatim>\<open>\uXXXX\<close> becomes the
  UTF-8 bytes of its code point; escaped surrogates are outside the model, and the result
  for them is \<open>None\<close> as for an error.
\<close>

definition is_ws :: "char \<Rightarrow> bool" where
  "is_ws c = (c = CHR '' '' \<or> c = CHR 0x09 \<or> c = CHR 0x0A \<or> c = CHR 0x0D)"

definition hex_digit :: "char \<Rightarrow> nat option" where
  "hex_digit c =
     (let n = of_char c :: nat in
      if 48 \<le> n \<and> n \<le> 57 then Some (n - 48)
      else if 97 \<le> n \<and> n \<le> 102 then Some (n - 87)
      else if 65 \<le> n \<and> n \<le> 70 then Some (n - 55)
      else None)"

definition hex4 :: "char \<Rightarrow> char \<Rightarrow> char \<Rightarrow> char \<Rightarrow> nat option" where
  "hex4 a b c d =
     (case (hex_digit a, hex_digit b, hex_digit c, hex_digit d) of
        (Some w, Some x, Some y, Some z) \<Rightarrow> Some (((w * 16 + x) * 16 + y) * 16 + z)
      | _ \<Rightarrow> None)"

definition utf8 :: "nat \<Rightarrow> string option" where
  "utf8 n =
     (if n < 0x80 then Some [char_of n]
      else if n < 0x800 then Some [char_of (0xC0 + n div 64), char_of (0x80 + n mod 64)]
      else if 0xD800 \<le> n \<and> n < 0xE000 then None
      else Some [char_of (0xE0 + n div 4096), char_of (0x80 + n div 64 mod 64),
                 char_of (0x80 + n mod 64)])"

definition unescape :: "char \<Rightarrow> char option" where
  "unescape e =
     (if e = CHR 0x22 then Some (CHR 0x22)
      else if e = CHR 0x5C then Some (CHR 0x5C)
      else if e = CHR ''/'' then Some (CHR ''/'')
      else if e = CHR ''b'' then Some (CHR 0x08)
      else if e = CHR ''f'' then Some (CHR 0x0C)
      else if e = CHR ''n'' then Some (CHR 0x0A)
      else if e = CHR ''r'' then Some (CHR 0x0D)
      else if e = CHR ''t'' then Some (CHR 0x09)
      else None)"

definition prepend :: "string \<Rightarrow> (string \<times> string) option \<Rightarrow> (string \<times> string) option" where
  "prepend bs r = (case r of None \<Rightarrow> None | Some (s, t) \<Rightarrow> Some (bs @ s, t))"

fun parse_chars :: "string \<Rightarrow> (string \<times> string) option" where
  "parse_chars [] = None"
| "parse_chars (c # cs) =
     (if c = CHR 0x22 then Some ([], cs)
      else if c = CHR 0x5C then
        (case cs of
           [] \<Rightarrow> None
         | e # r \<Rightarrow>
             if e = CHR ''u'' then
               (case r of
                  a # b # c' # d # r' \<Rightarrow>
                    (case hex4 a b c' d of
                       None \<Rightarrow> None
                     | Some n \<Rightarrow>
                         (case utf8 n of None \<Rightarrow> None | Some bs \<Rightarrow> prepend bs (parse_chars r')))
                | _ \<Rightarrow> None)
             else (case unescape e of None \<Rightarrow> None | Some x \<Rightarrow> prepend [x] (parse_chars r)))
      else if (of_char c :: nat) < 32 then None
      else prepend [c] (parse_chars cs))"

definition is_digit :: "char \<Rightarrow> bool" where
  "is_digit c = (let n = of_char c :: nat in 48 \<le> n \<and> n \<le> 57)"

definition digits_value :: "string \<Rightarrow> nat" where
  "digits_value ds = foldl (\<lambda>a c. 10 * a + (of_char c - 48)) 0 ds"

text \<open>
  A number literal is an optional minus sign, an integer part without a leading zero, an
  optional fraction and an optional exponent. It is read as the decimal it writes, with
  the trailing zeros of its digits moved into the exponent. JavaScript then rounds to the
  nearest double: a decimal of at least \<open>2 ^ 1024 - 2 ^ 970\<close> becomes an infinity, which the
  model follows. The rounding of smaller decimals is not modelled: the parser keeps the
  decimal as written, which is the Number JavaScript reads whenever the literal is the
  text of a Number, since \<^verbatim>\<open>Number::toString\<close> prints a decimal that reads back as the same
  double.
\<close>

fun strip_zeros :: "nat \<Rightarrow> nat \<times> int" where
  "strip_zeros m =
     (if 0 < m \<and> m mod 10 = 0 then (case strip_zeros (m div 10) of (s, z) \<Rightarrow> (s, z + 1))
      else (m, 0))"

declare strip_zeros.simps [simp del]

definition overflows :: "nat \<Rightarrow> int \<Rightarrow> bool" where
  "overflows s q =
     (if 0 \<le> q then 2 ^ 1024 - 2 ^ 970 \<le> s * 10 ^ nat q
      else (2 ^ 1024 - 2 ^ 970) * 10 ^ nat (- q) \<le> s)"

definition number_of :: "bool \<Rightarrow> nat \<Rightarrow> int \<Rightarrow> number" where
  "number_of neg m e =
     (if m = 0 then Finite neg 0 0
      else case strip_zeros m of
             (s, z) \<Rightarrow> if overflows s (e + z) then Infinite neg else Finite neg s (e + z))"

definition parse_fraction :: "string \<Rightarrow> (string \<times> string) option" where
  "parse_fraction r =
     (if r \<noteq> [] \<and> hd r = CHR ''.'' then
        (let fp = takeWhile is_digit (tl r) in
         if fp = [] then None else Some (fp, dropWhile is_digit (tl r)))
      else Some ([], r))"

definition parse_exponent :: "string \<Rightarrow> (int \<times> string) option" where
  "parse_exponent r =
     (if r \<noteq> [] \<and> (hd r = CHR ''e'' \<or> hd r = CHR ''E'') then
        (let r1 = tl r;
             neg = (r1 \<noteq> [] \<and> hd r1 = CHR ''-'');
             r2 = (if r1 \<noteq> [] \<and> (hd r1 = CHR ''-'' \<or> hd r1 = CHR ''+'') then tl r1 else r1);
             ep = takeWhile is_digit r2
         in if ep = [] then None
            else Some (if neg then - int (digits_value ep) else int (digits_value ep),
                       dropWhile is_digit r2))
      else Some (0, r))"

definition parse_unsigned :: "bool \<Rightarrow> string \<Rightarrow> (jsval \<times> string) option" where
  "parse_unsigned neg s =
     (let ip = takeWhile is_digit s in
      if ip = [] \<or> (hd ip = CHR ''0'' \<and> tl ip \<noteq> []) then None
      else case parse_fraction (dropWhile is_digit s) of
             None \<Rightarrow> None
           | Some (fp, r2) \<Rightarrow>
               (case parse_exponent r2 of
                  None \<Rightarrow> None
                | Some (e, r3) \<Rightarrow>
                    Some (JNum (number_of neg (digits_value (ip @ fp)) (e - int (length fp))),
                          r3)))"

definition parse_number :: "string \<Rightarrow> (jsval \<times> string) option" where
  "parse_number s =
     (if s \<noteq> [] \<and> hd s = CHR ''-'' then parse_unsigned True (tl s)
      else parse_unsigned False s)"

definition literal :: "string \<Rightarrow> jsval \<Rightarrow> string \<Rightarrow> (jsval \<times> string) option" where
  "literal w v s = (if take (length w) s = w then Some (v, drop (length w) s) else None)"

text \<open>
  A name that occurs twice in an object keeps its first place and takes its last value.
\<close>

fun define_property :: "string \<Rightarrow> jsval \<Rightarrow> (string \<times> jsval) list \<Rightarrow> (string \<times> jsval) list" where
  "define_property k v [] = [(k, v)]"
| "define_property k v ((k', v') # ps) =
     (if k' = k then (k, v) # ps else (k', v') # define_property k v ps)"

definition object_of :: "(string \<times> jsval) list \<Rightarrow> jsval" where
  "object_of kvs = JObj (foldl (\<lambda>obj kv. define_property (fst kv) (snd kv) obj) [] kvs)"

text \<open>
  The three mutually recursive parsers take a bound on the depth of their calls and fail
  when it is used up. \<open>JSON_parse\<close> passes the length of the text plus one; that this is
  enough for every text \<open>JSON_stringify\<close> produces is part of the round trip proved below.
\<close>

fun parse_value :: "nat \<Rightarrow> string \<Rightarrow> (jsval \<times> string) option"
  and parse_elements :: "nat \<Rightarrow> string \<Rightarrow> (jsval list \<times> string) option"
  and parse_members :: "nat \<Rightarrow> string \<Rightarrow> ((string \<times> jsval) list \<times> string) option"
where
  "parse_value 0 s = None"
| "parse_value (Suc n) s =
     (case dropWhile is_ws s of
        [] \<Rightarrow> None
      | c # r \<Rightarrow>
          if c = CHR ''['' then
            (case dropWhile is_ws r of
               [] \<Rightarrow> None
             | c' # r' \<Rightarrow>
                 if c' = CHR '']'' then Some (JArr [], r')
                 else map_option (\<lambda>(vs, t). (JArr vs, t)) (parse_elements n r))
          else if c = CHR ''{'' then
            (case dropWhile is_ws r of
               [] \<Rightarrow> None
             | c' # r' \<Rightarrow>
                 if c' = CHR ''}'' then Some (JObj [], r')
                 else map_option (\<lambda>(kvs, t). (object_of kvs, t)) (parse_members n r))
          else if c = CHR 0x22 then map_option (\<lambda>(x, t). (JStr x, t)) (parse_chars r)
          else if c = CHR ''t'' then literal ''true'' (JBool True) (c # r)
          else if c = CHR ''f'' then literal ''false'' (JBool False) (c # r)
          else if c = CHR ''n'' then literal ''null'' JNull (c # r)
          else parse_number (c # r))"
| "parse_elements 0 s = None"
| "parse_elements (Suc n) s =
     (case parse_value n s of
        None \<Rightarrow> None
      | Some (v, r) \<Rightarrow>
          (case dropWhile is_ws r of
             [] \<Rightarrow> None
           | c # r' \<Rightarrow>
               if c = CHR '','' then map_option (\<lambda>(vs, t). (v # vs, t)) (parse_elements n r')
               else if c = CHR '']'' then Some ([v], r')
               else None))"
| "parse_members 0 s = None"
| "parse_members (Suc n) s =
     (case dropWhile is_ws s of
        [] \<Rightarrow> None
      | q # r \<Rightarrow>
          if q \<noteq> CHR 0x22 then None
          else
            (case parse_chars r of
               None \<Rightarrow> None
             | Some (k, r1) \<Rightarrow>
                 (case dropWhile is_ws r1 of
                    [] \<Rightarrow> None
                  | c # r2 \<Rightarrow>
                      if c \<noteq> CHR '':'' then None
                      else
                        (case parse_value n r2 of
                           None \<Rightarrow> None
                         | Some (v, r3) \<Rightarrow>
                             (case dropWhile is_ws r3 of
                                [] \<Rightarrow> None
                              | c' # r4 \<Rightarrow>
                                  if c' = CHR '','' then
                                    map_option (\<lambda>(kvs, t). ((k, v) # kvs, t)) (parse_members n r4)
                                  else if c' = CHR ''}'' then Some ([(k, v)], r4)
                                  else None)))))"

definition JSON_parse :: "string \<Rightarrow> jsval option" where
  "JSON_parse s =
     (case parse_value (Suc (length s)) s of
        None \<Rightarrow> None
      | Some (v, r) \<Rightarrow> if dropWhile is_ws r = [] then Some v else None)"

text \<open>
  The Numbers that print as themselves: finite ones in normal form (no trailing zero in
  the digits, exponent 0 for zero) that are not the negative zero.
\<close>

fun printable :: "number \<Rightarrow> bool" where
  "printable (Infinite neg) = False"
| "printable (Finite neg s q) =
     (if s = 0 then \<not> neg \<and> q = 0 else s mod 10 \<noteq> 0 \<and> \<not> overflows s q)"

text \<open>
  The values \<^verbatim>\<open>resp.json()\<close> can resolve with, short of the infinities and the negative
  zero: no undefined inside, no name twice in an object, every Number printable.
\<close>

fun json_value :: "jsval \<Rightarrow> bool"
  and json_values :: "jsval list \<Rightarrow> bool"
  and json_members :: "(string \<times> jsval) list \<Rightarrow> bool"
where
  "json_value JUndefined = False"
| "json_value JNull = True"
| "json_value (JBool b) = True"
| "json_value (JNum n) = printable n"
| "json_value (JStr s) = True"
| "json_value (JArr xs) = json_values xs"
| "json_value (JObj kvs) = (distinct (map fst kvs) \<and> json_members kvs)"
| "json_values [] = True"
| "json_values (x # xs) = (json_value x \<and> json_values xs)"
| "json_members [] = True"
| "json_members ((k, v) # kvs) = (json_value v \<and> json_members kvs)"

text \<open>
  Texts that can follow a value in the output of \<open>serialize\<close>, texts that a value can
  start with, and white space.
\<close>

definition delimited :: "string \<Rightarrow> bool" where
  "delimited s = (case s of [] \<Rightarrow> True | c # r \<Rightarrow> c = CHR '','' \<or> c = CHR 0x0A)"

definition starts_value :: "string \<Rightarrow> bool" where
  "starts_value t =
     (case t of [] \<Rightarrow> False | c # r \<Rightarrow> \<not> is_ws c \<and> c \<noteq> CHR '']'' \<and> c \<noteq> CHR ''}'')"

definition blank :: "string \<Rightarrow> bool" where
  "blank s = list_all is_ws s"

section \<open>The tool handlers\<close>

text \<open>
  The arguments of a call have passed the schema of the tool: a string, an optional
  string, an optional member of an enumeration, an optional boolean.
\<close>

datatype impact = Low | Medium | High
datatype party = Democrat | Republican
datatype trade_type = Buy | Sell
datatype sentiment = Bullish | Bearish | Neutral

fun impact_string :: "impact \<Rightarrow> string" where
  "impact_string Low = ''low''"
| "impact_string Medium = ''medium''"
| "impact_string High = ''high''"

fun party_string :: "party \<Rightarrow> string" where
  "party_string Democrat = ''Democrat''"
| "party_string Republican = ''Republican''"

fun trade_type_string :: "trade_type \<Rightarrow> string" where
  "trade_type_string Buy = ''buy''"
| "trade_type_string Sell = ''sell''"

fun sentiment_string :: "sentiment \<Rightarrow> string" where
  "sentiment_string Bullish = ''bullish''"
| "sentiment_string Bearish = ''bearish''"
| "sentiment_string Neutral = ''neutral''"

datatype tool_call =
    Market_overview
  | Prices string "string option" "string option" "string option"
  | Indices "string option" "string option"
  | Forex "string option"
  | Earnings
  | Economic_events "string option" "impact option" "string option" "string option"
  | Congressional_trades "string option" "string option" "party option" "trade_type option"
      "string option" "string option"
  | Sentiment "sentiment option" "bool option"
  | Tweets "string option" "string option" "sentiment option" "bool option"
  | News

record content_block =
  type :: string
  text_field :: "string option"

record tool_result =
  content :: "content_block list"

text \<open>The assignment \<^verbatim>\<open>params.k = v\<close>.\<close>

fun assign :: "string \<Rightarrow> pvalue \<Rightarrow> params \<Rightarrow> params" where
  "assign k v [] = [(k, v)]"
| "assign k v ((k', v') # ps) = (if k' = k then (k, v) # ps else (k', v') # assign k v ps)"

text \<open>\<^verbatim>\<open>if (x) params.k = x\<close>: an absent argument and the empty string are falsy.\<close>

definition assign_if_truthy :: "string \<Rightarrow> string option \<Rightarrow> params \<Rightarrow> params" where
  "assign_if_truthy k x ps =
     (case x of None \<Rightarrow> ps | Some s \<Rightarrow> if s \<noteq> [] then assign k (PString s) ps else ps)"

text \<open>\<^verbatim>\<open>if (x !== undefined) params.k = String(x)\<close>, for a boolean.\<close>

definition assign_if_defined :: "string \<Rightarrow> bool option \<Rightarrow> params \<Rightarrow> params" where
  "assign_if_defined k x ps =
     (case x of None \<Rightarrow> ps
      | Some b \<Rightarrow> assign k (PString (if b then ''true'' else ''false'')) ps)"

text \<open>The endpoint and the parameter object each handler passes to \<^verbatim>\<open>makeRequest\<close>.\<close>

fun endpoint_of :: "tool_call \<Rightarrow> string" where
  "endpoint_of Market_overview = ''market/overview''"
| "endpoint_of (Prices symbol from to limit) = ''market/prices''"
| "endpoint_of (Indices region country) = ''market/indices''"
| "endpoint_of (Forex symbol) = ''market/forex''"
| "endpoint_of Earnings = ''events/earnings''"
| "endpoint_of (Economic_events country imp from to) = ''events/economic''"
| "endpoint_of (Congressional_trades symbol politician pty ty from to) = ''trades/congressional''"
| "endpoint_of (Sentiment snt financial_only) = ''social/sentiment''"
| "endpoint_of (Tweets author symbol snt financial_only) = ''social/tweets''"
| "endpoint_of News = ''news/summary''"

fun params_of :: "tool_call \<Rightarrow> params option" where
  "params_of Market_overview = None"
| "params_of (Prices symbol from to limit) =
     Some (assign_if_truthy ''limit'' limit
          (assign_if_truthy ''to'' to
          (assign_if_truthy ''from'' from [(''symbol'', PString symbol)])))"
| "params_of (Indices region country) =
     Some (assign_if_truthy ''country'' country
          (assign_if_truthy ''region'' region []))"
| "params_of (Forex symbol) = Some (assign_if_truthy ''symbol'' symbol [])"
| "params_of Earnings = None"
| "params_of (Economic_events country imp from to) =
     Some (assign_if_truthy ''to'' to
          (assign_if_truthy ''from'' from
          (assign_if_truthy ''impact'' (map_option impact_string imp)
          (assign_if_truthy ''country'' country []))))"
| "params_of (Congressional_trades symbol politician pty ty from to) =
     Some (assign_if_truthy ''to'' to
          (assign_if_truthy ''from'' from
          (assign_if_truthy ''type'' (map_option trade_type_string ty)
          (assign_if_truthy ''party'' (map_option party_string pty)
          (assign_if_truthy ''politician'' politician
          (assign_if_truthy ''symbol'' symbol []))))))"
| "params_of (Sentiment snt financial_only) =
     Some (assign_if_defined ''financial_only'' financial_only
          (assign_if_truthy ''sentiment'' (map_option sentiment_string snt) []))"
| "params_of (Tweets author symbol snt financial_only) =
     Some (assign_if_defined ''financial_only'' financial_only
          (assign_if_truthy ''sentiment'' (map_option sentiment_string snt)
          (assign_if_truthy ''symbol'' symbol
          (assign_if_truthy ''author'' author []))))"
| "params_of News = None"

text \<open>
  \<^verbatim>\<open>return { content: [{ type: "text", text: JSON.stringify(data, null, 2) }] }\<close>
\<close>

definition text_result :: "jsval \<Rightarrow> tool_result" where
  "text_result d = \<lparr>content = [\<lparr>type = ''text'', text_field = JSON_stringify d\<rparr>]\<rparr>"

text \<open>
  Every handler awaits \<^verbatim>\<open>makeRequest\<close> and wraps what it returns; none has a
  \<^verbatim>\<open>try\<close>/\<^verbatim>\<open>catch\<close>, so what \<^verbatim>\<open>makeRequest\<close> throws leaves the handler.
\<close>

definition handler :: "env \<Rightarrow> upstream \<Rightarrow> tool_call \<Rightarrow> tool_result run" where
  "handler env fetch c =
     (let r = makeRequest env fetch (endpoint_of c) (params_of c) in
      \<lparr>requests = requests r, outcome = map_sum id text_result (outcome r)\<rparr>)"

section \<open>Concrete surroundings\<close>

text \<open>
  An environment holding one credential, a service that cannot be reached, and a service
  that answers every request with status 200 and one parsed body.
\<close>

definition configured :: "string \<Rightarrow> env" where
  "configured k = [''TRADEKIX_API_KEY'' \<mapsto> k]"

definition unreachable :: upstream where
  "unreachable r = Rejected (TypeError ''fetch failed'')"

definition replying :: "jsval \<Rightarrow> upstream" where
  "replying d r = Resolved \<lparr>status = 200, json = Inr d\<rparr>"

text \<open>The Number of an integer.\<close>

definition num :: "int \<Rightarrow> number" where
  "num i = number_of (i < 0) (nat \<bar>i\<bar>) 0"

text \<open>The provisioning call that the message of \<open>getApiKey\<close> spells out.\<close>

definition provisioning_call :: string where
  \<open>provisioning_call =
     ''curl -X POST https://tradekix-alpha.vercel.app/api/v1/connect -H "Content-Type: application/json" -d ''
     @ [CHR 0x27] @ ''{"agent_name":"MyClaude","email":"you@example.com","source":"mcp"}'' @ [CHR 0x27]\<close>

text \<open>
  The query entry that \<^verbatim>\<open>if (x) params.k = x\<close> leads to: none for an absent or empty
  argument.
\<close>

definition optional_entry :: "string \<Rightarrow> string option \<Rightarrow> (string \<times> string) list" where
  "optional_entry k x = (case x of None \<Rightarrow> [] | Some s \<Rightarrow> if s \<noteq> [] then [(k, s)] else [])"

text \<open>The request \<^verbatim>\<open>makeRequest\<close> hands to \<^verbatim>\<open>fetch\<close> when the credential is \<open>k\<close>.\<close>

definition outbound :: "string \<Rightarrow> string \<Rightarrow> params option \<Rightarrow> request" where
  "outbound k endpoint ps = \<lparr>target = build_url endpoint ps, headers = [(''X-API-Key'', k)]\<rparr>"

text \<open>
  Two error envelopes: \<^verbatim>\<open>{success: false, error: "rate limited", retry_after_seconds: 30}\<close>
  and the same with \<^verbatim>\<open>retry_after_seconds: 0\<close>.
\<close>

definition rate_limited :: jsval where
  "rate_limited = JObj [(''success'', JBool False), (''error'', JStr ''rate limited''),
                        (''retry_after_seconds'', JNum (num 30))]"

definition rate_limited_no_wait :: jsval where
  "rate_limited_no_wait = JObj [(''success'', JBool False), (''error'', JStr ''rate limited''),
                                (''retry_after_seconds'', JNum (num 0))]"

text \<open>The success envelope \<^verbatim>\<open>{success: true, data: {"x": 1}}\<close>.\<close>

definition success_x1 :: jsval where
  "success_x1 = JObj [(''success'', JBool True), (''data'', JObj [(''x'', JNum (num 1))])]"

text \<open>
  The success envelope \<^verbatim>\<open>{success: true, data: {"price": 189.5, "cap": 1e21}}\<close>, the
  envelope \<^verbatim>\<open>{success: true}\<close> without data, a body text whose data is too large for a
  double, and one whose data is the negative zero.
\<close>

definition success_quote :: jsval where
  "success_quote = JObj [(''success'', JBool True),
     (''data'', JObj [(''price'', JNum (Finite False 1895 (- 1))),
                      (''cap'', JNum (Finite False 1 21))])]"

definition success_no_data :: jsval where
  "success_no_data = JObj [(''success'', JBool True)]"

definition overflowing_body :: string where
  \<open>overflowing_body = ''{"success":true,"data":1e400}''\<close>

definition negative_zero_body :: string where
  \<open>negative_zero_body = ''{"success":true,"data":-0}''\<close>

section \<open>The missing credential\<close>

lemma num_values:
  "num 0 = Finite False 0 0" "num 1 = Finite False 1 0" "num 7 = Finite False 7 0"
  "num 30 = Finite False 3 1"
  by (simp_all add: num_def number_of_def strip_zeros.simps overflows_def)

lemma nonzero_num [simp]:
  "nonzero (num 0) = False" "nonzero (num 1)" "nonzero (num 7)" "nonzero (num 30)"
  by (simp_all add: num_values)

lemma digit_char_values:
  "digit_char 0 = CHR ''0''" "digit_char 1 = CHR ''1''" "digit_char 2 = CHR ''2''"
  "digit_char 3 = CHR ''3''" "digit_char 4 = CHR ''4''" "digit_char 5 = CHR ''5''"
  "digit_char 6 = CHR ''6''" "digit_char 7 = CHR ''7''" "digit_char 8 = CHR ''8''"
  "digit_char 9 = CHR ''9''" "digit_char (Suc 0) = CHR ''1''"
  by code_simp+

lemma digits_small: "n < 10 \<Longrightarrow> digits n = [digit_char n]"
  by (subst digits.simps) simp

lemma digits_values:
  "digits 1 = ''1''" "digits (Suc 0) = ''1''" "digits 21 = ''21''" "digits 1895 = ''1895''"
  by code_simp+

lemma number_text_values:
  "number_text (num 0) = ''0''" "number_text (num 1) = ''1''"
  "number_text (num 7) = ''7''" "number_text (num 30) = ''30''"
  by (simp_all add: num_values decimal_text_def digits_small digit_char_values)

lemma getApiKey_missing:
  "env ''TRADEKIX_API_KEY'' = None \<or> env ''TRADEKIX_API_KEY'' = Some [] \<Longrightarrow>
   getApiKey env = Inl (Error missing_key_message)"
  by (auto simp: getApiKey_def)

lemma getApiKey_present:
  "env ''TRADEKIX_API_KEY'' = Some k \<Longrightarrow> k \<noteq> [] \<Longrightarrow> getApiKey env = Inr k"
  by (simp add: getApiKey_def)

lemma message_names_variable: "sublist ''TRADEKIX_API_KEY'' missing_key_message"
  unfolding missing_key_message_def by (simp add: sublist_code prefix_code)

lemma message_says_where:
  "sublist ''Get a free key (100 calls/day) at https://www.tradekix.ai/ai-agent-access''
     missing_key_message"
  unfolding missing_key_message_def by (simp add: sublist_code prefix_code)

lemma message_gives_call: "sublist provisioning_call missing_key_message"
  unfolding missing_key_message_def provisioning_call_def by (simp add: sublist_code prefix_code)

text \<open>
  C3. When \<^verbatim>\<open>TRADEKIX_API_KEY\<close> is unset or empty, every tool call (and every call of
  \<^verbatim>\<open>makeRequest\<close>) throws before any request is sent, whatever the service would have
  answered. The message of the error contains the name of the variable, the page where a
  key is obtained, and the provisioning call in full.
\<close>

theorem missing_credential_fails_before_fetch:
  assumes "env ''TRADEKIX_API_KEY'' = None \<or> env ''TRADEKIX_API_KEY'' = Some []"
  shows "requests (handler env fetch c) = []
       \<and> outcome (handler env fetch c) = Inl (Error missing_key_message)
       \<and> requests (makeRequest env fetch endpoint ps) = []
       \<and> outcome (makeRequest env fetch endpoint ps) = Inl (Error missing_key_message)
       \<and> sublist ''TRADEKIX_API_KEY'' missing_key_message
       \<and> sublist ''Get a free key (100 calls/day) at https://www.tradekix.ai/ai-agent-access''
            missing_key_message
       \<and> sublist provisioning_call missing_key_message"
  using assms getApiKey_missing [of env] message_names_variable message_says_where
    message_gives_call
  by (simp add: handler_def makeRequest_def)

theorem missing_credential_fails_before_fetch_witness:
  "requests (handler (configured []) unreachable News) = []
   \<and> outcome (handler (configured []) unreachable News) = Inl (Error missing_key_message)
   \<and> requests (handler Map.empty (replying JNull) (Forex None)) = []"
  using missing_credential_fails_before_fetch [of "configured []" unreachable News]
        missing_credential_fails_before_fetch [of Map.empty "replying JNull" "Forex None"]
  by (simp add: configured_def)

section \<open>The query of the outbound request\<close>

lemma getApiKey_configured: "k \<noteq> [] \<Longrightarrow> getApiKey (configured k) = Inr k"
  by (simp add: getApiKey_def configured_def)

lemma set_searchParams_set:
  "set (searchParams_set k v es) \<subseteq> insert (k, v) (set es)"
  by (induction es) (auto split: if_splits)

lemma keys_searchParams_set:
  "fst ` set (searchParams_set k v es) = insert k (fst ` set es)"
proof (induction es)
  case Nil
  then show ?case by simp
next
  case (Cons e es)
  obtain k' v' where e: "e = (k', v')" by (cases e)
  show ?case
  proof (cases "k' = k")
    case True
    have "fst ` set (filter (\<lambda>e. fst e \<noteq> k) es) = fst ` set es - {k}"
      by (auto simp: image_iff)
    with True e show ?thesis by auto
  next
    case False
    with e Cons.IH show ?thesis by auto
  qed
qed

lemma address_add_param: "address (add_param u e) = address u"
  by (cases "(u, e)" rule: add_param.cases) auto

lemma address_foldl_add_param: "address (foldl add_param u es) = address u"
  by (induction es arbitrary: u) (auto simp: address_add_param)

lemma entries_add_param:
  "(k, v) \<in> set (searchParams (add_param u e)) \<Longrightarrow>
   (k, v) \<in> set (searchParams u) \<or> (v \<noteq> [] \<and> e = (k, PString v))"
  using set_searchParams_set
  by (cases "(u, e)" rule: add_param.cases) (auto split: if_splits)

lemma entries_foldl_add_param:
  "(k, v) \<in> set (searchParams (foldl add_param u es)) \<Longrightarrow>
   (k, v) \<in> set (searchParams u) \<or> (v \<noteq> [] \<and> (k, PString v) \<in> set es)"
proof (induction es arbitrary: u)
  case Nil
  then show ?case by simp
next
  case (Cons e es)
  from Cons.IH [of "add_param u e"] Cons.prems
  have "(k, v) \<in> set (searchParams (add_param u e)) \<or> (v \<noteq> [] \<and> (k, PString v) \<in> set es)"
    by simp
  then show ?case
    using entries_add_param [of k v u e] by auto
qed

lemma keys_add_param:
  "fst ` set (searchParams (add_param u e)) =
     fst ` set (searchParams u) \<union> (case e of (k, PString v) \<Rightarrow> if v \<noteq> [] then {k} else {} | _ \<Rightarrow> {})"
  by (cases "(u, e)" rule: add_param.cases) (auto simp: keys_searchParams_set)

lemma keys_foldl_add_param:
  "fst ` set (searchParams (foldl add_param u es)) =
     fst ` set (searchParams u) \<union> {k. \<exists>v. v \<noteq> [] \<and> (k, PString v) \<in> set es}"
proof (induction es arbitrary: u)
  case Nil
  then show ?case by simp
next
  case (Cons e es)
  obtain k x where e: "e = (k, x)" by (cases e)
  show ?case
    unfolding foldl.simps Cons.IH keys_add_param e
    by (cases x) auto
qed

lemma requests_makeRequest:
  "requests (makeRequest env fetch endpoint ps) =
     (case getApiKey env of
        Inl e \<Rightarrow> []
      | Inr k \<Rightarrow> [\<lparr>target = build_url endpoint ps, headers = [(''X-API-Key'', k)]\<rparr>])"
  by (simp add: makeRequest_def Let_def split: sum.splits fetch_result.splits)

text \<open>No endpoint of the ten tools has a query or fragment delimiter.\<close>

lemma endpoints_have_no_query:
  "CHR ''?'' \<notin> set (endpoint_of c) \<and> CHR ''#'' \<notin> set (endpoint_of c)"
  by (cases c) simp_all

lemma build_url_None: "build_url endpoint None = new_URL (BASE_URL @ ''/'' @ endpoint)"
  by (simp add: build_url_def)

lemma build_url_Some:
  "build_url endpoint (Some es) = foldl add_param (new_URL (BASE_URL @ ''/'' @ endpoint)) es"
  by (simp add: build_url_def)

lemma entries_build_url:
  "(k, v) \<in> set (searchParams (build_url endpoint ps)) \<Longrightarrow>
   v \<noteq> [] \<and> (\<exists>es. ps = Some es \<and> (k, PString v) \<in> set es)"
proof (cases ps)
  case None
  assume "(k, v) \<in> set (searchParams (build_url endpoint ps))"
  with None show ?thesis by (simp add: build_url_None new_URL_def)
next
  case (Some es)
  assume "(k, v) \<in> set (searchParams (build_url endpoint ps))"
  with Some entries_foldl_add_param [of k v "new_URL (BASE_URL @ ''/'' @ endpoint)" es]
  show ?thesis by (simp add: build_url_Some new_URL_def)
qed

text \<open>
  C4. No endpoint that a handler passes to \<^verbatim>\<open>makeRequest\<close> has a query or fragment
  delimiter, and for every endpoint without one and every parameter object: in every
  request \<^verbatim>\<open>makeRequest\<close> sends, each query entry is an entry of the parameter object with a
  defined, non-empty string value. So a name whose value is absent, undefined, null or the
  empty string is not in the query (with no parameter object, the query is empty), and
  every name with a defined, non-empty value is in the query.
\<close>

theorem only_defined_nonempty_params_in_query:
  "(\<forall>c. CHR ''?'' \<notin> set (endpoint_of c) \<and> CHR ''#'' \<notin> set (endpoint_of c))
   \<and> (CHR ''?'' \<notin> set endpoint \<and> CHR ''#'' \<notin> set endpoint \<longrightarrow>
      (\<forall>r \<in> set (requests (makeRequest env fetch endpoint ps)).
         (\<forall>k v. (k, v) \<in> set (searchParams (target r)) \<longrightarrow>
            v \<noteq> [] \<and> (\<exists>es. ps = Some es \<and> (k, PString v) \<in> set es))
       \<and> (\<forall>k es. ps = Some es \<and> (\<forall>v. (k, PString v) \<in> set es \<longrightarrow> v = []) \<longrightarrow>
            k \<notin> fst ` set (searchParams (target r)))
       \<and> (\<forall>k. ps = None \<longrightarrow> k \<notin> fst ` set (searchParams (target r)))
       \<and> (\<forall>k v es. ps = Some es \<and> (k, PString v) \<in> set es \<and> v \<noteq> [] \<longrightarrow>
            k \<in> fst ` set (searchParams (target r)))))"
proof (intro conjI impI ballI)
  show "\<forall>c. CHR ''?'' \<notin> set (endpoint_of c) \<and> CHR ''#'' \<notin> set (endpoint_of c)"
    using endpoints_have_no_query by blast
next
  fix r
  assume "r \<in> set (requests (makeRequest env fetch endpoint ps))"
  then have r: "target r = build_url endpoint ps"
    by (auto simp: requests_makeRequest split: sum.splits)
  have keys: "ps = Some es \<Longrightarrow> fst ` set (searchParams (target r)) = {k. \<exists>v. v \<noteq> [] \<and> (k, PString v) \<in> set es}" for es
    unfolding r by (simp add: build_url_Some new_URL_def keys_foldl_add_param)
  have none: "ps = None \<Longrightarrow> searchParams (target r) = []"
    unfolding r by (simp add: build_url_None new_URL_def)
  show "\<forall>k v. (k, v) \<in> set (searchParams (target r)) \<longrightarrow>
        v \<noteq> [] \<and> (\<exists>es. ps = Some es \<and> (k, PString v) \<in> set es)"
    using entries_build_url [of _ _ endpoint ps] unfolding r [symmetric] by blast
  show "\<forall>k es. ps = Some es \<and> (\<forall>v. (k, PString v) \<in> set es \<longrightarrow> v = []) \<longrightarrow>
        k \<notin> fst ` set (searchParams (target r))"
    using keys by auto
  show "\<forall>k. ps = None \<longrightarrow> k \<notin> fst ` set (searchParams (target r))"
    using none by auto
  show "\<forall>k v es. ps = Some es \<and> (k, PString v) \<in> set es \<and> v \<noteq> [] \<longrightarrow>
        k \<in> fst ` set (searchParams (target r))"
    using keys by auto
qed

theorem only_defined_nonempty_params_in_query_witness:
  "CHR ''?'' \<notin> set ''market/prices'' \<and> CHR ''#'' \<notin> set ''market/prices''
   \<and> map (searchParams \<circ> target)
     (requests (makeRequest (configured ''k'') unreachable ''market/prices''
        (Some [(''symbol'', PString []), (''from'', PUndefined), (''to'', PNull),
               (''limit'', PString ''5'')])))
     = [[(''limit'', ''5'')]]
   \<and> ''symbol'' \<notin> fst ` set (searchParams (target (hd
        (requests (makeRequest (configured ''k'') unreachable ''market/prices''
           (Some [(''symbol'', PString []), (''from'', PUndefined), (''to'', PNull),
                  (''limit'', PString ''5'')]))))))"
proof -
  let ?ps = "[(''symbol'', PString []), (''from'', PUndefined), (''to'', PNull),
              (''limit'', PString ''5'')]"
  let ?run = "makeRequest (configured ''k'') unreachable ''market/prices'' (Some ?ps)"
  have plain: "CHR ''?'' \<notin> set ''market/prices'' \<and> CHR ''#'' \<notin> set ''market/prices''"
    by simp
  have sent: "requests ?run =
      [\<lparr>target = build_url ''market/prices'' (Some ?ps), headers = [(''X-API-Key'', ''k'')]\<rparr>]"
    by (simp add: requests_makeRequest getApiKey_configured)
  have query: "searchParams (build_url ''market/prices'' (Some ?ps)) = [(''limit'', ''5'')]"
    by (simp add: build_url_Some new_URL_def)
  have mem: "hd (requests ?run) \<in> set (requests ?run)"
    by (simp add: sent)
  have empty: "\<forall>v. (''symbol'', PString v) \<in> set ?ps \<longrightarrow> v = []"
    by simp
  from only_defined_nonempty_params_in_query [of "''market/prices''" "configured ''k''"
      unreachable "Some ?ps"] plain mem
  have "\<forall>k es. Some ?ps = Some es \<and> (\<forall>v. (k, PString v) \<in> set es \<longrightarrow> v = []) \<longrightarrow>
        k \<notin> fst ` set (searchParams (target (hd (requests ?run))))"
    by blast
  with empty have "''symbol'' \<notin> fst ` set (searchParams (target (hd (requests ?run))))"
    by blast
  with plain sent query show ?thesis by simp
qed

lemma outcome_handler:
  "outcome (handler env fetch c) =
     map_sum id text_result (outcome (makeRequest env fetch (endpoint_of c) (params_of c)))"
  by (simp add: handler_def Let_def)

lemma requests_handler:
  "requests (handler env fetch c) = requests (makeRequest env fetch (endpoint_of c) (params_of c))"
  by (simp add: handler_def Let_def)

section \<open>The credential and the URL\<close>

text \<open>
  C8. With a credential configured, \<^verbatim>\<open>makeRequest\<close> sends one request whose URL is built
  from the endpoint and the parameters alone, and whose only header is \<^verbatim>\<open>X-API-Key\<close>
  with the credential. Two runs with different credentials (and any two services) send
  the same URL object and the same URL string.
\<close>

theorem credential_only_in_header:
  assumes "env1 ''TRADEKIX_API_KEY'' = Some k1" and "k1 \<noteq> []"
    and "env2 ''TRADEKIX_API_KEY'' = Some k2" and "k2 \<noteq> []"
  shows "map target (requests (makeRequest env1 fetch1 endpoint ps)) = [build_url endpoint ps]
       \<and> map target (requests (makeRequest env1 fetch1 endpoint ps))
           = map target (requests (makeRequest env2 fetch2 endpoint ps))
       \<and> map (url_toString \<circ> target) (requests (makeRequest env1 fetch1 endpoint ps))
           = map (url_toString \<circ> target) (requests (makeRequest env2 fetch2 endpoint ps))
       \<and> map headers (requests (makeRequest env1 fetch1 endpoint ps)) = [[(''X-API-Key'', k1)]]
       \<and> map headers (requests (makeRequest env2 fetch2 endpoint ps)) = [[(''X-API-Key'', k2)]]"
  using assms by (simp add: requests_makeRequest getApiKey_present)

theorem credential_only_in_header_witness:
  "map (url_toString \<circ> target)
     (requests (makeRequest (configured ''alpha'') unreachable ''market/forex''
        (Some [(''symbol'', PString ''EUR/USD'')])))
   = map (url_toString \<circ> target)
     (requests (makeRequest (configured ''beta'') (replying JNull) ''market/forex''
        (Some [(''symbol'', PString ''EUR/USD'')])))
   \<and> map headers
     (requests (makeRequest (configured ''alpha'') unreachable ''market/forex''
        (Some [(''symbol'', PString ''EUR/USD'')]))) = [[(''X-API-Key'', ''alpha'')]]"
  using credential_only_in_header [of "configured ''alpha''" "''alpha''" "configured ''beta''"
      "''beta''" unreachable "''market/forex''" "Some [(''symbol'', PString ''EUR/USD'')]"
      "replying JNull"]
  by (simp add: configured_def)


section \<open>The prices tool with an empty symbol\<close>

lemma requests_handler_present:
  "env ''TRADEKIX_API_KEY'' = Some k \<Longrightarrow> k \<noteq> [] \<Longrightarrow>
   requests (handler env fetch c)
     = [\<lparr>target = build_url (endpoint_of c) (params_of c), headers = [(''X-API-Key'', k)]\<rparr>]"
  by (simp add: requests_handler requests_makeRequest getApiKey_present)

lemma prices_query:
  "searchParams (build_url ''market/prices'' (params_of (Prices [] from to limit)))
     = (case from of None \<Rightarrow> [] | Some s \<Rightarrow> if s \<noteq> [] then [(''from'', s)] else [])
     @ (case to of None \<Rightarrow> [] | Some s \<Rightarrow> if s \<noteq> [] then [(''to'', s)] else [])
     @ (case limit of None \<Rightarrow> [] | Some s \<Rightarrow> if s \<noteq> [] then [(''limit'', s)] else [])"
  by (cases "from"; cases "to"; cases limit)
     (simp_all add: build_url_Some new_URL_def assign_if_truthy_def)

lemma address_build_url: "address (build_url endpoint ps) = BASE_URL @ ''/'' @ endpoint"
  by (cases ps) (simp_all add: build_url_None build_url_Some new_URL_def address_foldl_add_param)

text \<open>
  C10. The prices tool called with the empty string as symbol and no other argument
  still goes through \<^verbatim>\<open>makeRequest\<close>: with a credential configured, exactly one request is
  sent, to \<^verbatim>\<open>market/prices\<close>, with no query entry at all, and its URL string has no query
  part. Whatever the other three arguments are, one request is sent to that address and
  its query has no \<^verbatim>\<open>symbol\<close> entry.
\<close>

theorem prices_empty_symbol_dropped:
  assumes "env ''TRADEKIX_API_KEY'' = Some k" and "k \<noteq> []"
  shows "requests (handler env fetch (Prices [] None None None))
           = [\<lparr>target = \<lparr>address = ''https://tradekix-alpha.vercel.app/api/v1/market/prices'',
                          searchParams = []\<rparr>,
               headers = [(''X-API-Key'', k)]\<rparr>]
       \<and> map (url_toString \<circ> target) (requests (handler env fetch (Prices [] None None None)))
           = [''https://tradekix-alpha.vercel.app/api/v1/market/prices'']
       \<and> (\<exists>r. requests (handler env fetch (Prices [] from to limit)) = [r]
              \<and> address (target r) = ''https://tradekix-alpha.vercel.app/api/v1/market/prices''
              \<and> ''symbol'' \<notin> fst ` set (searchParams (target r)))"
proof -
  have one: "requests (handler env fetch (Prices [] None None None))
           = [\<lparr>target = \<lparr>address = ''https://tradekix-alpha.vercel.app/api/v1/market/prices'',
                          searchParams = []\<rparr>,
               headers = [(''X-API-Key'', k)]\<rparr>]"
    using assms
    by (simp add: requests_handler_present build_url_Some new_URL_def BASE_URL_def
        assign_if_truthy_def)
  have two: "map (url_toString \<circ> target) (requests (handler env fetch (Prices [] None None None)))
           = [''https://tradekix-alpha.vercel.app/api/v1/market/prices'']"
    unfolding one by (simp add: url_toString_def)
  have "''symbol'' \<notin> fst ` set (searchParams
          (build_url ''market/prices'' (params_of (Prices [] from to limit))))"
    unfolding prices_query by (auto split: option.splits)
  then have three: "\<exists>r. requests (handler env fetch (Prices [] from to limit)) = [r]
              \<and> address (target r) = ''https://tradekix-alpha.vercel.app/api/v1/market/prices''
              \<and> ''symbol'' \<notin> fst ` set (searchParams (target r))"
    using assms by (simp add: requests_handler_present address_build_url BASE_URL_def)
  from one two three show ?thesis by blast
qed

theorem prices_empty_symbol_dropped_witness:
  "map (url_toString \<circ> target) (requests (handler (configured ''k'') unreachable (Prices [] None None None)))
           = [''https://tradekix-alpha.vercel.app/api/v1/market/prices'']"
  using prices_empty_symbol_dropped [of "configured ''k''" "''k''" unreachable None None None,
      THEN conjunct2, THEN conjunct1]
  by (simp add: configured_def)


section \<open>The boolean parameter\<close>

lemma sentiment_string_nonempty: "sentiment_string s \<noteq> []"
  by (cases s) simp_all

lemma sentiment_query:
  "searchParams (build_url ''social/sentiment'' (params_of (Sentiment snt fo)))
     = optional_entry ''sentiment'' (map_option sentiment_string snt)
     @ (case fo of None \<Rightarrow> [] | Some b \<Rightarrow> [(''financial_only'', if b then ''true'' else ''false'')])"
  using sentiment_string_nonempty
  by (cases snt; cases fo)
     (simp_all add: build_url_Some new_URL_def assign_if_truthy_def assign_if_defined_def
        optional_entry_def)

lemma tweets_query:
  "searchParams (build_url ''social/tweets'' (params_of (Tweets author symbol snt fo)))
     = optional_entry ''author'' author
     @ optional_entry ''symbol'' symbol
     @ optional_entry ''sentiment'' (map_option sentiment_string snt)
     @ (case fo of None \<Rightarrow> [] | Some b \<Rightarrow> [(''financial_only'', if b then ''true'' else ''false'')])"
  using sentiment_string_nonempty
  by (cases author; cases symbol; cases snt; cases fo)
     (simp_all add: build_url_Some new_URL_def assign_if_truthy_def assign_if_defined_def
        optional_entry_def)

lemma keys_optional_entry: "(k', v) \<in> set (optional_entry k x) \<Longrightarrow> k' = k"
  by (auto simp: optional_entry_def split: option.splits if_splits)

text \<open>
  C5. With a credential configured, the sentiment tool and the tweets tool called with
  \<^verbatim>\<open>financial_only\<close> false send one request whose query has the entry
  \<^verbatim>\<open>financial_only=false\<close>; called without \<^verbatim>\<open>financial_only\<close>, the query has no such name.
  For the sentiment tool with that argument alone the URL string ends in
  \<^verbatim>\<open>?financial_only=false\<close>.
\<close>

theorem financial_only_false_is_forwarded:
  assumes "env ''TRADEKIX_API_KEY'' = Some k" and "k \<noteq> []"
  shows "(\<exists>r. requests (handler env fetch (Sentiment snt (Some False))) = [r]
            \<and> (''financial_only'', ''false'') \<in> set (searchParams (target r)))
       \<and> (\<exists>r. requests (handler env fetch (Tweets author symbol snt (Some False))) = [r]
            \<and> (''financial_only'', ''false'') \<in> set (searchParams (target r)))
       \<and> (\<exists>r. requests (handler env fetch (Sentiment snt None)) = [r]
            \<and> ''financial_only'' \<notin> fst ` set (searchParams (target r)))
       \<and> (\<exists>r. requests (handler env fetch (Tweets author symbol snt None)) = [r]
            \<and> ''financial_only'' \<notin> fst ` set (searchParams (target r)))
       \<and> map (url_toString \<circ> target) (requests (handler env fetch (Sentiment None (Some False))))
           = [''https://tradekix-alpha.vercel.app/api/v1/social/sentiment?financial_only=false'']"
proof -
  have s_false: "(''financial_only'', ''false'') \<in> set (searchParams
      (build_url ''social/sentiment'' (params_of (Sentiment snt (Some False)))))"
    unfolding sentiment_query by simp
  have t_false: "(''financial_only'', ''false'') \<in> set (searchParams
      (build_url ''social/tweets'' (params_of (Tweets author symbol snt (Some False)))))"
    unfolding tweets_query by simp
  have s_none: "''financial_only'' \<notin> fst ` set (searchParams
      (build_url ''social/sentiment'' (params_of (Sentiment snt None))))"
    unfolding sentiment_query by (auto dest: keys_optional_entry)
  have t_none: "''financial_only'' \<notin> fst ` set (searchParams
      (build_url ''social/tweets'' (params_of (Tweets author symbol snt None))))"
    unfolding tweets_query by (auto dest: keys_optional_entry)
  have href: "url_toString (build_url ''social/sentiment'' (params_of (Sentiment None (Some False))))
      = ''https://tradekix-alpha.vercel.app/api/v1/social/sentiment?financial_only=false''"
    unfolding url_toString_def sentiment_query address_build_url
    by (simp add: BASE_URL_def optional_entry_def query_string_def urlencode_def
        urlencode_byte_def)
  from assms s_false t_false s_none t_none href show ?thesis
    by (simp add: requests_handler_present)
qed

theorem financial_only_false_is_forwarded_witness:
  "map (url_toString \<circ> target)
     (requests (handler (configured ''k'') unreachable (Sentiment None (Some False))))
    = [''https://tradekix-alpha.vercel.app/api/v1/social/sentiment?financial_only=false'']"
  using financial_only_false_is_forwarded [of "configured ''k''" "''k''" unreachable None None None]
  by (simp add: configured_def)

section \<open>What a call returns and what it throws\<close>

lemma get_prop_defined:
  "d \<noteq> JNull \<Longrightarrow> d \<noteq> JUndefined \<Longrightarrow> get_prop d k = Inr (read_prop d k)"
  by (cases d) (simp_all add: read_prop_def)

lemma outcome_makeRequest_rejected:
  "getApiKey env = Inr k \<Longrightarrow>
   fetch \<lparr>target = build_url endpoint ps, headers = [(''X-API-Key'', k)]\<rparr> = Rejected e \<Longrightarrow>
   outcome (makeRequest env fetch endpoint ps) = Inl e"
  by (simp add: makeRequest_def)

lemma outcome_makeRequest_unparsed:
  "getApiKey env = Inr k \<Longrightarrow>
   fetch \<lparr>target = build_url endpoint ps, headers = [(''X-API-Key'', k)]\<rparr> = Resolved resp \<Longrightarrow>
   json resp = Inl e \<Longrightarrow>
   outcome (makeRequest env fetch endpoint ps) = Inl e"
  by (simp add: makeRequest_def)

lemma outcome_makeRequest_null:
  "getApiKey env = Inr k \<Longrightarrow>
   fetch \<lparr>target = build_url endpoint ps, headers = [(''X-API-Key'', k)]\<rparr> = Resolved resp \<Longrightarrow>
   json resp = Inr JNull \<Longrightarrow>
   outcome (makeRequest env fetch endpoint ps)
     = Inl (TypeError (''Cannot read properties of null (reading '' @ [CHR 0x27] @ ''success''
          @ [CHR 0x27] @ '')''))"
  by (simp add: makeRequest_def)

lemma outcome_makeRequest_parsed:
  "getApiKey env = Inr k \<Longrightarrow>
   fetch \<lparr>target = build_url endpoint ps, headers = [(''X-API-Key'', k)]\<rparr> = Resolved resp \<Longrightarrow>
   json resp = Inr d \<Longrightarrow> d \<noteq> JNull \<Longrightarrow> d \<noteq> JUndefined \<Longrightarrow>
   outcome (makeRequest env fetch endpoint ps)
     = Inr (if truthy (read_prop d ''success'') then read_prop d ''data'' else error_object d)"
  by (simp add: makeRequest_def get_prop_defined)


text \<open>
  C1, as the code has it. With a credential configured, for an envelope whose \<^verbatim>\<open>success\<close> is
  false, \<^verbatim>\<open>makeRequest\<close> returns the object with the \<^verbatim>\<open>error\<close> of the envelope, followed by
  \<^verbatim>\<open>upgrade\<close> exactly when the envelope has a truthy \<^verbatim>\<open>upgrade\<close>, followed by
  \<^verbatim>\<open>retry_after_seconds\<close> exactly when the envelope has a truthy \<^verbatim>\<open>retry_after_seconds\<close>.
\<close>

theorem business_error_is_returned_normalized:
  assumes "env ''TRADEKIX_API_KEY'' = Some k" and "k \<noteq> []"
    and "fetch (outbound k endpoint ps) = Resolved resp"
    and "json resp = Inr (JObj kvs)"
    and "map_of kvs ''success'' = Some (JBool False)"
  shows "outcome (makeRequest env fetch endpoint ps)
     = Inr (JObj ([(''error'', case map_of kvs ''error'' of None \<Rightarrow> JUndefined | Some v \<Rightarrow> v)]
           @ (case map_of kvs ''upgrade'' of None \<Rightarrow> []
              | Some v \<Rightarrow> if truthy v then [(''upgrade'', v)] else [])
           @ (case map_of kvs ''retry_after_seconds'' of None \<Rightarrow> []
              | Some v \<Rightarrow> if truthy v then [(''retry_after_seconds'', v)] else [])))"
  using assms getApiKey_present [of env k]
  by (simp add: outbound_def outcome_makeRequest_parsed error_object_def read_prop_def
      split: option.splits)

lemma rate_limited_text:
  \<open>JSON_stringify (JObj [(''error'', JStr ''rate limited''), (''retry_after_seconds'', JNum (num 30))])
     = Some (''{'' @ [CHR 0x0A] @ ''  "error": "rate limited",'' @ [CHR 0x0A]
             @ ''  "retry_after_seconds": 30'' @ [CHR 0x0A] @ ''}'')\<close>
  by (simp add: JSON_stringify_def wrap_def quote_def quote_char_def number_text_values)

theorem business_error_is_returned_normalized_witness:
  \<open>outcome (makeRequest (configured ''k'') (replying rate_limited) ''news/summary'' None)
     = Inr (JObj [(''error'', JStr ''rate limited''), (''retry_after_seconds'', JNum (num 30))])
   \<and> outcome (handler (configured ''k'') (replying rate_limited) News)
     = Inr \<lparr>content = [\<lparr>type = ''text'', text_field =
         Some (''{'' @ [CHR 0x0A] @ ''  "error": "rate limited",'' @ [CHR 0x0A]
               @ ''  "retry_after_seconds": 30'' @ [CHR 0x0A] @ ''}'')\<rparr>]\<rparr>\<close>
proof -
  have key: "configured ''k'' ''TRADEKIX_API_KEY'' = Some ''k''" and ne: "''k'' \<noteq> []"
    by (simp_all add: configured_def)
  have one: "outcome (makeRequest (configured ''k'') (replying rate_limited) ''news/summary'' None)
     = Inr (JObj [(''error'', JStr ''rate limited''), (''retry_after_seconds'', JNum (num 30))])"
    using key ne business_error_is_returned_normalized [of "configured ''k''" "''k''"
        "replying rate_limited"
        "''news/summary''" None "\<lparr>status = 200, json = Inr rate_limited\<rparr>"
        "[(''success'', JBool False), (''error'', JStr ''rate limited''),
          (''retry_after_seconds'', JNum (num 30))]"]
    by (simp add: replying_def rate_limited_def)
  then show ?thesis
    by (simp add: outcome_handler text_result_def rate_limited_text del: append.simps)
qed

text \<open>
  C1 as stated fails for a hint that is present and falsy: the envelope has
  \<^verbatim>\<open>retry_after_seconds: 0\<close>, and the returned object has no such key.
\<close>

theorem present_hint_always_kept_counterexample:
  "outcome (makeRequest (configured ''k'') (replying rate_limited_no_wait) ''news/summary'' None)
     = Inr (JObj [(''error'', JStr ''rate limited'')])
   \<and> get_prop rate_limited_no_wait ''retry_after_seconds'' = Inr (JNum (num 0))"
  by (simp add: makeRequest_def getApiKey_configured replying_def rate_limited_no_wait_def
      error_object_def read_prop_def)

text \<open>
  C9, as the code has it. With a credential configured, for every parsed body other than
  \<^verbatim>\<open>null\<close> whose \<^verbatim>\<open>success\<close> is absent or falsy, \<^verbatim>\<open>makeRequest\<close> returns the normalized error
  object: the \<^verbatim>\<open>error\<close> property of the body (undefined when the body has none), followed
  by \<^verbatim>\<open>upgrade\<close> exactly when the body has a truthy \<^verbatim>\<open>upgrade\<close>, followed by
  \<^verbatim>\<open>retry_after_seconds\<close> exactly when the body has a truthy \<^verbatim>\<open>retry_after_seconds\<close>, and
  nothing else.
\<close>

theorem falsy_success_is_business_error:
  assumes "env ''TRADEKIX_API_KEY'' = Some k" and "k \<noteq> []"
    and "fetch (outbound k endpoint ps) = Resolved resp"
    and "json resp = Inr d" and "d \<noteq> JNull" and "d \<noteq> JUndefined"
    and "\<not> truthy (read_prop d ''success'')"
  shows "outcome (makeRequest env fetch endpoint ps)
     = Inr (JObj ([(''error'', read_prop d ''error'')]
           @ (if truthy (read_prop d ''upgrade'') then [(''upgrade'', read_prop d ''upgrade'')]
              else [])
           @ (if truthy (read_prop d ''retry_after_seconds'')
              then [(''retry_after_seconds'', read_prop d ''retry_after_seconds'')] else [])))"
  using assms getApiKey_present [of env k]
  by (simp add: outbound_def outcome_makeRequest_parsed error_object_def)

theorem falsy_success_is_business_error_witness:
  "outcome (makeRequest (configured ''k'')
       (replying (JObj [(''error'', JStr ''no flag''), (''upgrade'', JStr ''pro'')]))
       ''news/summary'' None)
     = Inr (JObj [(''error'', JStr ''no flag''), (''upgrade'', JStr ''pro'')])
   \<and> outcome (makeRequest (configured ''k'') (replying (JObj [(''success'', JNum (num 0))]))
       ''news/summary'' None) = Inr (JObj [(''error'', JUndefined)])
   \<and> outcome (makeRequest (configured ''k'') (replying (JObj [(''success'', JNull)]))
       ''news/summary'' None) = Inr (JObj [(''error'', JUndefined)])
   \<and> outcome (makeRequest (configured ''k'') (replying (JArr []))
       ''news/summary'' None) = Inr (JObj [(''error'', JUndefined)])"
proof -
  have key: "configured ''k'' ''TRADEKIX_API_KEY'' = Some ''k''" and ne: "''k'' \<noteq> []"
    by (simp_all add: configured_def)
  have a: "outcome (makeRequest (configured ''k'')
       (replying (JObj [(''error'', JStr ''no flag''), (''upgrade'', JStr ''pro'')]))
       ''news/summary'' None)
     = Inr (JObj [(''error'', JStr ''no flag''), (''upgrade'', JStr ''pro'')])"
    using key ne falsy_success_is_business_error [of "configured ''k''" "''k''"
        "replying (JObj [(''error'', JStr ''no flag''), (''upgrade'', JStr ''pro'')])"
        "''news/summary''" None
        "\<lparr>status = 200,
          json = Inr (JObj [(''error'', JStr ''no flag''), (''upgrade'', JStr ''pro'')])\<rparr>"
        "JObj [(''error'', JStr ''no flag''), (''upgrade'', JStr ''pro'')]"]
    by (simp add: replying_def read_prop_def)
  have b: "outcome (makeRequest (configured ''k'') (replying (JObj [(''success'', JNum (num 0))]))
       ''news/summary'' None) = Inr (JObj [(''error'', JUndefined)])"
    using key ne falsy_success_is_business_error [of "configured ''k''" "''k''"
        "replying (JObj [(''success'', JNum (num 0))])" "''news/summary''" None
        "\<lparr>status = 200, json = Inr (JObj [(''success'', JNum (num 0))])\<rparr>"
        "JObj [(''success'', JNum (num 0))]"]
    by (simp add: replying_def read_prop_def)
  have c: "outcome (makeRequest (configured ''k'') (replying (JObj [(''success'', JNull)]))
       ''news/summary'' None) = Inr (JObj [(''error'', JUndefined)])"
    using key ne falsy_success_is_business_error [of "configured ''k''" "''k''"
        "replying (JObj [(''success'', JNull)])" "''news/summary''" None
        "\<lparr>status = 200, json = Inr (JObj [(''success'', JNull)])\<rparr>" "JObj [(''success'', JNull)]"]
    by (simp add: replying_def read_prop_def)
  have d: "outcome (makeRequest (configured ''k'') (replying (JArr []))
       ''news/summary'' None) = Inr (JObj [(''error'', JUndefined)])"
    using key ne falsy_success_is_business_error [of "configured ''k''" "''k''"
        "replying (JArr [])" "''news/summary''" None
        "\<lparr>status = 200, json = Inr (JArr [])\<rparr>" "JArr []"]
    by (simp add: replying_def read_prop_def)
  from a b c d show ?thesis by simp
qed

text \<open>
  C9 as stated fails for the body \<^verbatim>\<open>null\<close>, which is valid JSON and has no \<^verbatim>\<open>success\<close>
  field: reading \<^verbatim>\<open>data.success\<close> throws a TypeError, which \<^verbatim>\<open>makeRequest\<close> propagates.
\<close>

theorem null_body_counterexample:
  "outcome (makeRequest (configured ''k'') (replying JNull) ''news/summary'' None)
     = Inl (TypeError (''Cannot read properties of null (reading '' @ [CHR 0x27] @ ''success''
          @ [CHR 0x27] @ '')''))"
  by (simp add: makeRequest_def getApiKey_configured replying_def)

text \<open>
  C2, as the code has it. With a credential configured, a rejected \<^verbatim>\<open>fetch\<close> and a
  rejected \<^verbatim>\<open>json()\<close> leave the handler as the exception they raised, and a body that is
  \<^verbatim>\<open>null\<close> leaves it as a TypeError. For every other parsed body the handler returns a
  ToolResult: the text of the \<^verbatim>\<open>data\<close> field when \<^verbatim>\<open>success\<close> is truthy, the text of the
  normalized error object otherwise.
\<close>

theorem handler_returns_or_fault_propagates:
  assumes "env ''TRADEKIX_API_KEY'' = Some k" and "k \<noteq> []"
  shows "(\<forall>e. fetch (outbound k (endpoint_of c) (params_of c)) = Rejected e \<longrightarrow>
            outcome (handler env fetch c) = Inl e)
       \<and> (\<forall>resp e. fetch (outbound k (endpoint_of c) (params_of c)) = Resolved resp
            \<and> json resp = Inl e \<longrightarrow> outcome (handler env fetch c) = Inl e)
       \<and> (\<forall>resp. fetch (outbound k (endpoint_of c) (params_of c)) = Resolved resp
            \<and> json resp = Inr JNull \<longrightarrow> (\<exists>m. outcome (handler env fetch c) = Inl (TypeError m)))
       \<and> (\<forall>resp d. fetch (outbound k (endpoint_of c) (params_of c)) = Resolved resp
            \<and> json resp = Inr d \<and> d \<noteq> JNull \<and> d \<noteq> JUndefined \<longrightarrow>
            outcome (handler env fetch c)
              = Inr (text_result (if truthy (read_prop d ''success'') then read_prop d ''data''
                                  else error_object d)))"
  using assms getApiKey_present [of env k]
  by (simp add: outcome_handler outbound_def outcome_makeRequest_rejected
      outcome_makeRequest_unparsed outcome_makeRequest_null outcome_makeRequest_parsed)

theorem handler_returns_or_fault_propagates_witness:
  "outcome (handler (configured ''k'') (replying rate_limited) News)
     = Inr (text_result (JObj [(''error'', JStr ''rate limited''), (''retry_after_seconds'', JNum (num 30))]))"
proof -
  have key: "configured ''k'' ''TRADEKIX_API_KEY'' = Some ''k''" and ne: "''k'' \<noteq> []"
    by (simp_all add: configured_def)
  have reply: "replying rate_limited (outbound ''k'' (endpoint_of News) (params_of News))
      = Resolved \<lparr>status = 200, json = Inr rate_limited\<rparr>
      \<and> json \<lparr>status = 200, json = Inr rate_limited\<rparr> = Inr rate_limited
      \<and> rate_limited \<noteq> JNull \<and> rate_limited \<noteq> JUndefined"
    by (simp add: replying_def rate_limited_def)
  from handler_returns_or_fault_propagates [of "configured ''k''" "''k''"
      "replying rate_limited" News] key ne reply
  have "outcome (handler (configured ''k'') (replying rate_limited) News)
     = Inr (text_result (if truthy (read_prop rate_limited ''success'')
                         then read_prop rate_limited ''data'' else error_object rate_limited))"
    by blast
  then show ?thesis
    by (simp add: rate_limited_def read_prop_def error_object_def)
qed

text \<open>
  C2 as stated fails when the service cannot be reached: the credential is configured,
  and the handler ends with the exception of \<^verbatim>\<open>fetch\<close>, not with a ToolResult.
\<close>

theorem every_failure_is_caught_counterexample:
  "outcome (handler (configured ''k'') unreachable News) = Inl (TypeError ''fetch failed'')"
  by (simp add: outcome_handler makeRequest_def getApiKey_configured unreachable_def)

text \<open>
  C7, as the code has it. A tool call sends at most one request, whatever the service
  answers: exactly one when a non-empty credential is configured, none otherwise. A call
  that returns a ToolResult has sent exactly one request.
\<close>

theorem at_most_one_upstream_call:
  "length (requests (handler env fetch c)) \<le> 1
   \<and> (length (requests (handler env fetch c)) = 1
        \<longleftrightarrow> (\<exists>k. env ''TRADEKIX_API_KEY'' = Some k \<and> k \<noteq> []))
   \<and> (\<forall>t. outcome (handler env fetch c) = Inr t \<longrightarrow> length (requests (handler env fetch c)) = 1)"
proof (cases "getApiKey env")
  case (Inl e)
  then have "\<not> (\<exists>k. env ''TRADEKIX_API_KEY'' = Some k \<and> k \<noteq> [])"
    by (auto simp: getApiKey_def split: if_splits)
  with Inl show ?thesis
    by (simp add: requests_handler requests_makeRequest outcome_handler makeRequest_def)
next
  case (Inr k)
  then have "\<exists>k. env ''TRADEKIX_API_KEY'' = Some k \<and> k \<noteq> []"
    by (auto simp: getApiKey_def split: option.splits if_splits)
  with Inr show ?thesis
    by (simp add: requests_handler requests_makeRequest)
qed

theorem at_most_one_upstream_call_witness:
  "length (requests (handler (configured ''k'') unreachable News)) = 1
   \<and> length (requests (handler (configured ''k'')
        (replying (JObj [(''success'', JBool True), (''data'', JNum (num 7))])) News)) = 1"
proof -
  have "\<exists>k. configured ''k'' ''TRADEKIX_API_KEY'' = Some k \<and> k \<noteq> []"
    by (simp add: configured_def)
  with at_most_one_upstream_call [of "configured ''k''" unreachable News]
    at_most_one_upstream_call [of "configured ''k''"
      "replying (JObj [(''success'', JBool True), (''data'', JNum (num 7))])" News]
  show ?thesis by blast
qed

text \<open>
  C7 as stated fails in two ways. Without a credential the call sends no request and
  returns no ToolResult, although the service would have answered. With a credential and
  a service that cannot be reached the call sends its one request and ends with the
  exception of \<^verbatim>\<open>fetch\<close>, again without a ToolResult.
\<close>

theorem exactly_one_round_trip_counterexample:
  "requests (handler Map.empty (replying success_x1) News) = []
   \<and> outcome (handler Map.empty (replying success_x1) News) = Inl (Error missing_key_message)
   \<and> length (requests (handler (configured ''k'') unreachable News)) = 1
   \<and> outcome (handler (configured ''k'') unreachable News) = Inl (TypeError ''fetch failed'')"
  by (simp add: requests_handler requests_makeRequest outcome_handler makeRequest_def
      getApiKey_def configured_def unreachable_def)

section \<open>Printing and parsing\<close>

lemma hex_digit_hex_lower: "m < 16 \<Longrightarrow> hex_digit (hex_lower m) = Some m"
proof -
  assume "m < 16"
  then have "m \<in> set [0..<16]" by simp
  moreover have "\<forall>m\<in>set [0..<16]. hex_digit (hex_lower m) = Some m"
    by code_simp
  ultimately show ?thesis by blast
qed

lemma hex4_control: "n < 32 \<Longrightarrow>
  hex4 (CHR ''0'') (CHR ''0'') (hex_lower (n div 16)) (hex_lower n) = Some n"
proof -
  assume n: "n < 32"
  then have a: "hex_digit (hex_lower (n div 16)) = Some (n div 16)"
    by (intro hex_digit_hex_lower) simp
  have "hex_lower n = hex_lower (n mod 16)"
    by (simp add: hex_lower_def)
  then have b: "hex_digit (hex_lower n) = Some (n mod 16)"
    by (simp add: hex_digit_hex_lower)
  have z: "hex_digit (CHR ''0'') = Some 0"
    by (simp add: hex_digit_def)
  show ?thesis
    by (simp add: hex4_def a b z)
qed

lemma control_chars:
  "char_of (34::nat) = CHR 0x22" "char_of (92::nat) = CHR 0x5C" "char_of (8::nat) = CHR 0x08"
  "char_of (9::nat) = CHR 0x09" "char_of (10::nat) = CHR 0x0A" "char_of (12::nat) = CHR 0x0C"
  "char_of (13::nat) = CHR 0x0D"
  by code_simp+

lemma parse_chars_quote_char:
  "parse_chars (quote_char c @ s) = prepend [c] (parse_chars s)"
proof -
  define n :: nat where "n = of_char c"
  have c: "c = char_of n" by (simp add: n_def)
  have n256: "n < 256" by (simp add: n_def)
  consider "n = 0x22" | "n = 0x5C" | "n = 8" | "n = 9" | "n = 10" | "n = 12" | "n = 13"
    | "n < 32" "n \<noteq> 8" "n \<noteq> 9" "n \<noteq> 10" "n \<noteq> 12" "n \<noteq> 13"
    | "32 \<le> n" "n \<noteq> 0x22" "n \<noteq> 0x5C"
    by linarith
  then show ?thesis
  proof cases
    case 8
    then have q: "quote_char c = [CHR 0x5C, CHR ''u'', CHR ''0'', CHR ''0'', hex_lower (n div 16), hex_lower n]"
      by (simp add: quote_char_def n_def [symmetric])
    from 8 have u: "utf8 n = Some [c]" by (simp add: utf8_def c)
    show ?thesis
      by (simp add: q hex4_control [OF 8(1)] u)
  next
    case 9
    then have q: "quote_char c = [c]"
      by (simp add: quote_char_def n_def [symmetric])
    from 9 have "c \<noteq> CHR 0x22" "c \<noteq> CHR 0x5C" "\<not> (of_char c :: nat) < 32"
      by (auto simp: n_def)
    then show ?thesis by (simp add: q)
  qed (simp_all add: quote_char_def n_def [symmetric] c unescape_def control_chars)
qed

lemma parse_chars_quote:
  "parse_chars (concat (map quote_char s) @ CHR 0x22 # rest) = Some (s, rest)"
  by (induction s) (simp_all add: parse_chars_quote_char prepend_def)


lemma is_digit_digit_char: "is_digit (digit_char n)"
proof -
  have "(48 + n mod 10) mod 256 = 48 + n mod 10"
    by (rule mod_less) (use mod_less_divisor [of 10 n] in linarith)
  then show ?thesis
    by (simp add: is_digit_def digit_char_def)
qed

lemma digit_char_value: "of_char (digit_char n) - 48 = n mod 10"
proof -
  have "(48 + n mod 10) mod 256 = 48 + n mod 10"
    by (rule mod_less) (use mod_less_divisor [of 10 n] in linarith)
  then show ?thesis
    by (simp add: digit_char_def)
qed

lemma digits_are_digits: "c \<in> set (digits n) \<Longrightarrow> is_digit c"
proof (induction n arbitrary: c rule: digits.induct)
  case (1 n)
  show ?case
  proof (cases "n < 10")
    case True
    with "1.prems" show ?thesis
      by (subst (asm) digits.simps) (simp add: is_digit_digit_char)
  next
    case False
    with "1.prems" "1.IH" show ?thesis
      by (subst (asm) digits.simps) (auto simp: is_digit_digit_char)
  qed
qed

lemma digits_nonempty: "digits n \<noteq> []"
  by (subst digits.simps) simp

lemma digits_value_snoc: "digits_value (ds @ [d]) = 10 * digits_value ds + (of_char d - 48)"
  by (simp add: digits_value_def)

lemma digits_value_digits: "digits_value (digits n) = n"
proof (induction n rule: digits.induct)
  case (1 n)
  show ?case
  proof (cases "n < 10")
    case True
    then show ?thesis
      by (subst digits.simps) (simp add: digits_value_def digit_char_value)
  next
    case False
    with "1.IH" show ?thesis
      by (subst digits.simps) (simp add: digits_value_snoc digit_char_value)
  qed
qed

lemma digits_no_leading_zero: "0 < n \<Longrightarrow> hd (digits n) \<noteq> CHR ''0''"
proof (induction n rule: digits.induct)
  case (1 n)
  show ?case
  proof (cases "n < 10")
    case True
    with "1.prems" have "char_of (48 + n) \<noteq> (char_of (48::nat))"
      by simp
    moreover have "char_of (48::nat) = CHR ''0''" by code_simp
    ultimately show ?thesis
      using True by (subst digits.simps) (simp add: digit_char_def)
  next
    case False
    then have "0 < n div 10" by simp
    with "1.IH" False have "hd (digits (n div 10)) \<noteq> CHR ''0''" by simp
    with False show ?thesis
      by (subst digits.simps) (simp add: digits_nonempty)
  qed
qed

lemma digits_zero: "digits 0 = ''0''"
  by code_simp


lemma delimited_simps: "delimited []" "delimited (CHR '','' # s)" "delimited (CHR 0x0A # s)"
  by (simp_all add: delimited_def)

lemma delimited_not_digit: "delimited r \<Longrightarrow> r = [] \<or> \<not> is_digit (hd r)"
  by (cases r) (auto simp: delimited_def is_digit_def)

lemma digits_value_append:
  "digits_value (a @ b) = digits_value a * 10 ^ length b + digits_value b"
proof (induction b rule: rev_induct)
  case Nil
  then show ?case by (simp add: digits_value_def)
next
  case (snoc d b)
  have "digits_value (a @ b @ [d]) = 10 * digits_value (a @ b) + (of_char d - 48)"
    using digits_value_snoc [of "a @ b" d] by simp
  with snoc show ?case
    by (simp add: digits_value_snoc algebra_simps)
qed

lemma digits_value_zeros: "digits_value (replicate z (CHR ''0'')) = 0"
proof (induction z)
  case 0
  then show ?case by (simp add: digits_value_def)
next
  case (Suc z)
  have "replicate (Suc z) (CHR ''0'') = replicate z (CHR ''0'') @ ''0''"
    by (simp add: replicate_append_same)
  with Suc show ?case
    by (simp only: digits_value_snoc) simp
qed

lemma is_digit_zero: "is_digit (CHR ''0'')"
  by (simp add: is_digit_def)

lemma strip_zeros_times:
  "0 < s \<Longrightarrow> s mod 10 \<noteq> 0 \<Longrightarrow> strip_zeros (s * 10 ^ z) = (s, int z)"
proof (induction z)
  case 0
  then show ?case by (subst strip_zeros.simps) simp
next
  case (Suc z)
  have "s * 10 ^ Suc z div 10 = s * 10 ^ z" "s * 10 ^ Suc z mod 10 = 0"
    by simp_all
  with Suc show ?case
    by (subst strip_zeros.simps) simp
qed

lemma number_of_times:
  "0 < s \<Longrightarrow> s mod 10 \<noteq> 0 \<Longrightarrow> \<not> overflows s (e + int z) \<Longrightarrow>
   number_of neg (s * 10 ^ z) e = Finite neg s (e + int z)"
  by (simp add: number_of_def strip_zeros_times)

lemma strip_zeros_normal:
  "0 < m \<Longrightarrow> strip_zeros m = (s, z) \<Longrightarrow> 0 < s \<and> s mod 10 \<noteq> 0"
proof (induction m arbitrary: s z rule: strip_zeros.induct)
  case (1 m)
  show ?case
  proof (cases "m mod 10 = 0")
    case True
    with \<open>0 < m\<close> have pos: "0 < m div 10"
      by (simp add: div_greater_zero_iff) presburger
    obtain s' z' where sz: "strip_zeros (m div 10) = (s', z')"
      by (cases "strip_zeros (m div 10)")
    with 1(2,3) True have "s = s'"
      by (subst (asm) strip_zeros.simps) simp
    with 1(1) [OF _ pos sz] 1(2) True show ?thesis
      by simp
  next
    case False
    with 1(2,3) show ?thesis
      by (subst (asm) strip_zeros.simps) auto
  qed
qed

text \<open>Every Number the parser reads is an infinity, a zero or printable.\<close>

lemma number_of_normal:
  "number_of neg m e = Finite neg' s q \<Longrightarrow> (s = 0 \<and> q = 0) \<or> printable (Finite neg' s q)"
proof (cases "m = 0")
  case True
  assume "number_of neg m e = Finite neg' s q"
  with True show ?thesis by (simp add: number_of_def)
next
  case False
  assume n: "number_of neg m e = Finite neg' s q"
  obtain s' z where sz: "strip_zeros m = (s', z)"
    by (cases "strip_zeros m")
  from False strip_zeros_normal [OF _ sz] have "0 < s'" "s' mod 10 \<noteq> 0"
    by simp_all
  with n False sz show ?thesis
    by (auto simp: number_of_def split: if_splits)
qed

lemma read_digits:
  assumes "\<And>c. c \<in> set ds \<Longrightarrow> is_digit c" and "r = [] \<or> \<not> is_digit (hd r)"
  shows "takeWhile is_digit (ds @ r) = ds" and "dropWhile is_digit (ds @ r) = r"
proof -
  from assms(2) have t: "takeWhile is_digit r = []" and d: "dropWhile is_digit r = r"
    by (cases r; simp)+
  show "takeWhile is_digit (ds @ r) = ds"
    using assms(1) t by (simp add: takeWhile_append2)
  show "dropWhile is_digit (ds @ r) = r"
    using assms(1) d by (simp add: dropWhile_append2)
qed

lemma parse_fraction_some:
  assumes "\<And>c. c \<in> set fp \<Longrightarrow> is_digit c" and "fp \<noteq> []" and "r = [] \<or> \<not> is_digit (hd r)"
  shows "parse_fraction (CHR ''.'' # fp @ r) = Some (fp, r)"
  using read_digits [OF assms(1,3)] assms(2) by (simp add: parse_fraction_def)

lemma parse_fraction_none: "r = [] \<or> hd r \<noteq> CHR ''.'' \<Longrightarrow> parse_fraction r = Some ([], r)"
  by (auto simp: parse_fraction_def)

lemma parse_exponent_some:
  assumes "delimited r"
  shows "parse_exponent (CHR ''e'' # exponent_text e @ r) = Some (e, r)"
proof -
  have rd: "takeWhile is_digit (digits n @ r) = digits n"
    "dropWhile is_digit (digits n @ r) = r" for n
    using read_digits [of "digits n" r] digits_are_digits delimited_not_digit [OF assms]
    by blast+
  show ?thesis
  proof (cases "e < 0")
    case True
    then show ?thesis
      by (simp add: parse_exponent_def exponent_text_def Let_def rd digits_nonempty
          digits_value_digits)
  next
    case False
    then show ?thesis
      by (simp add: parse_exponent_def exponent_text_def Let_def rd digits_nonempty
          digits_value_digits)
  qed
qed

lemma parse_exponent_none: "delimited r \<Longrightarrow> parse_exponent r = Some (0, r)"
  by (cases r) (auto simp: parse_exponent_def delimited_def)

lemma parse_unsigned_parts:
  assumes "\<And>c. c \<in> set ip \<Longrightarrow> is_digit c" and "ip \<noteq> []"
    and "\<not> (hd ip = CHR ''0'' \<and> tl ip \<noteq> [])"
    and "x = [] \<or> \<not> is_digit (hd x)"
    and "parse_fraction x = Some (fp, y)"
    and "parse_exponent y = Some (e, r)"
  shows "parse_unsigned neg (ip @ x)
    = Some (JNum (number_of neg (digits_value (ip @ fp)) (e - int (length fp))), r)"
  using read_digits [OF assms(1,4)] assms(2,3,5,6)
  by (simp add: parse_unsigned_def)


lemma not_digit_punctuation:
  "\<not> is_digit (CHR ''.'')" "\<not> is_digit (CHR ''e'')" "\<not> is_digit (CHR ''-'')"
  by (simp_all add: is_digit_def)

lemma digits_facts:
  assumes "0 < s"
  shows "digits s \<noteq> []" and "hd (digits s) \<noteq> CHR ''0''" and "digits_value (digits s) = s"
    and "0 < length (digits s)"
  using assms digits_nonempty [of s] digits_no_leading_zero [of s] digits_value_digits [of s]
  by simp_all

lemma delimited_no_point: "delimited r \<Longrightarrow> r = [] \<or> hd r \<noteq> CHR ''.''"
  by (cases r) (auto simp: delimited_def)

lemma number_of_plain:
  "0 < s \<Longrightarrow> s mod 10 \<noteq> 0 \<Longrightarrow> \<not> overflows s q \<Longrightarrow> number_of neg s q = Finite neg s q"
  using number_of_times [of s q 0 neg] by simp

text \<open>The digits followed by zeros.\<close>

lemma parse_integer_form:
  assumes "0 < s" and "s mod 10 \<noteq> 0" and "\<not> overflows s (int z)" and "delimited rest"
  shows "parse_unsigned neg ((digits s @ replicate z (CHR ''0'')) @ rest)
    = Some (JNum (Finite neg s (int z)), rest)"
proof -
  let ?ip = "digits s @ replicate z (CHR ''0'')"
  have a: "\<And>c. c \<in> set ?ip \<Longrightarrow> is_digit c"
    using digits_are_digits [of _ s] is_digit_zero by auto
  have b: "?ip \<noteq> []" and c: "\<not> (hd ?ip = CHR ''0'' \<and> tl ?ip \<noteq> [])"
    using digits_facts [OF assms(1)] by simp_all
  have v: "digits_value (?ip @ []) = s * 10 ^ z"
    using digits_facts(3) [OF assms(1)] by (simp add: digits_value_append digits_value_zeros)
  from parse_unsigned_parts [OF a b c delimited_not_digit [OF assms(4)]
      parse_fraction_none [OF delimited_no_point [OF assms(4)]]
      parse_exponent_none [OF assms(4)], of neg]
  show ?thesis
    unfolding v using number_of_times [OF assms(1,2), of 0 z neg] assms(3) by simp
qed

text \<open>The digits with a point inside.\<close>

lemma parse_point_form:
  assumes "0 < s" and "s mod 10 \<noteq> 0" and "\<not> overflows s (int m - int (length (digits s)))"
    and "delimited rest" and "0 < m" and "m < length (digits s)"
  shows "parse_unsigned neg (take m (digits s) @ CHR ''.'' # drop m (digits s) @ rest)
    = Some (JNum (Finite neg s (int m - int (length (digits s)))), rest)"
proof -
  let ?ds = "digits s"
  let ?ip = "take m ?ds" and ?fp = "drop m ?ds"
  have a: "\<And>c. c \<in> set ?ip \<Longrightarrow> is_digit c" and a': "\<And>c. c \<in> set ?fp \<Longrightarrow> is_digit c"
    using digits_are_digits [of _ s] by (auto dest: in_set_takeD in_set_dropD)
  have b: "?ip \<noteq> []" and b': "?fp \<noteq> []"
    using assms(5,6) by auto
  have "hd ?ip = hd ?ds"
    using assms(5) by (cases ?ds) (auto simp: take_Suc_conv_app_nth gr0_conv_Suc)
  then have c: "\<not> (hd ?ip = CHR ''0'' \<and> tl ?ip \<noteq> [])"
    using digits_facts(2) [OF assms(1)] by simp
  have x: "CHR ''.'' # ?fp @ rest = [] \<or> \<not> is_digit (hd (CHR ''.'' # ?fp @ rest))"
    by (simp add: not_digit_punctuation)
  have v: "digits_value (?ip @ ?fp) = s"
    using digits_facts(3) [OF assms(1)] by simp
  have l: "0 - int (length ?fp) = int m - int (length ?ds)"
    using assms(6) by simp
  from parse_unsigned_parts [OF a b c x
      parse_fraction_some [OF a' b' delimited_not_digit [OF assms(4)]]
      parse_exponent_none [OF assms(4)], of neg]
  show ?thesis
    unfolding v l using number_of_plain [OF assms(1,2,3), of neg] by simp
qed

text \<open>\<^verbatim>\<open>0.\<close>, zeros and the digits.\<close>

lemma parse_small_form:
  assumes "0 < s" and "s mod 10 \<noteq> 0"
    and "\<not> overflows s (- int z - int (length (digits s)))" and "delimited rest"
  shows "parse_unsigned neg (''0.'' @ replicate z (CHR ''0'') @ digits s @ rest)
    = Some (JNum (Finite neg s (- int z - int (length (digits s)))), rest)"
proof -
  let ?fp = "replicate z (CHR ''0'') @ digits s"
  have a: "\<And>c. c \<in> set ''0'' \<Longrightarrow> is_digit c" and a': "\<And>c. c \<in> set ?fp \<Longrightarrow> is_digit c"
    using digits_are_digits [of _ s] is_digit_zero by auto
  have b: "''0'' \<noteq> []" and c: "\<not> (hd ''0'' = CHR ''0'' \<and> tl ''0'' \<noteq> [])"
    and b': "?fp \<noteq> []"
    using digits_facts(1) [OF assms(1)] by simp_all
  have x: "CHR ''.'' # ?fp @ rest = [] \<or> \<not> is_digit (hd (CHR ''.'' # ?fp @ rest))"
    by (simp add: not_digit_punctuation)
  have "digits_value (''0'' @ ?fp) = digits_value ''0'' * 10 ^ length ?fp + digits_value ?fp"
    by (rule digits_value_append)
  moreover have "digits_value ''0'' = 0"
    by (simp add: digits_value_def)
  moreover have "digits_value ?fp = s"
    using digits_facts(3) [OF assms(1)] by (simp add: digits_value_append digits_value_zeros)
  ultimately have v: "digits_value (''0'' @ ?fp) = s"
    by simp
  have l: "0 - int (length ?fp) = - int z - int (length (digits s))"
    by simp
  from parse_unsigned_parts [OF a b c x
      parse_fraction_some [OF a' b' delimited_not_digit [OF assms(4)]]
      parse_exponent_none [OF assms(4)], of neg]
  show ?thesis
    unfolding v l using number_of_plain [OF assms(1,2,3), of neg] by simp
qed

text \<open>One digit and an exponent.\<close>

lemma parse_exponent_form_one:
  assumes "0 < s" and "s mod 10 \<noteq> 0" and "\<not> overflows s e" and "delimited rest"
  shows "parse_unsigned neg (digits s @ CHR ''e'' # exponent_text e @ rest)
    = Some (JNum (Finite neg s e), rest)"
proof -
  let ?x = "CHR ''e'' # exponent_text e @ rest"
  have a: "\<And>c. c \<in> set (digits s) \<Longrightarrow> is_digit c"
    by (rule digits_are_digits)
  have b: "digits s \<noteq> []" and c: "\<not> (hd (digits s) = CHR ''0'' \<and> tl (digits s) \<noteq> [])"
    using digits_facts [OF assms(1)] by simp_all
  have x: "?x = [] \<or> \<not> is_digit (hd ?x)" and p: "?x = [] \<or> hd ?x \<noteq> CHR ''.''"
    by (simp_all add: not_digit_punctuation)
  have v: "digits_value (digits s @ []) = s"
    using digits_facts(3) [OF assms(1)] by simp
  from parse_unsigned_parts [OF a b c x parse_fraction_none [OF p]
      parse_exponent_some [OF assms(4)], of neg]
  show ?thesis
    unfolding v using number_of_plain [OF assms(1,2,3), of neg] by simp
qed

text \<open>The first digit, a point, the other digits and an exponent.\<close>

lemma parse_exponent_form_many:
  assumes "0 < s" and "s mod 10 \<noteq> 0"
    and "\<not> overflows s (e + 1 - int (length (digits s)))" and "delimited rest"
    and "1 < length (digits s)"
  shows "parse_unsigned neg
      (take 1 (digits s) @ CHR ''.'' # drop 1 (digits s) @ CHR ''e'' # exponent_text e @ rest)
    = Some (JNum (Finite neg s (e + 1 - int (length (digits s)))), rest)"
proof -
  let ?ds = "digits s"
  let ?ip = "take 1 ?ds" and ?fp = "drop 1 ?ds"
  let ?y = "CHR ''e'' # exponent_text e @ rest"
  have a: "\<And>c. c \<in> set ?ip \<Longrightarrow> is_digit c" and a': "\<And>c. c \<in> set ?fp \<Longrightarrow> is_digit c"
    using digits_are_digits [of _ s] by (auto dest: in_set_takeD in_set_dropD)
  have b: "?ip \<noteq> []" and b': "?fp \<noteq> []"
    using assms(5) by auto
  have c: "\<not> (hd ?ip = CHR ''0'' \<and> tl ?ip \<noteq> [])"
    by (cases ?ds) simp_all
  have x: "CHR ''.'' # ?fp @ ?y = [] \<or> \<not> is_digit (hd (CHR ''.'' # ?fp @ ?y))"
    and y: "?y = [] \<or> \<not> is_digit (hd ?y)"
    by (simp_all add: not_digit_punctuation)
  have v: "digits_value (?ip @ ?fp) = s"
    using digits_facts(3) [OF assms(1)] by simp
  have l: "e - int (length ?fp) = e + 1 - int (length ?ds)"
    using assms(5) by simp
  from parse_unsigned_parts [OF a b c x parse_fraction_some [OF a' b' y]
      parse_exponent_some [OF assms(4)], of neg]
  show ?thesis
    unfolding v l using number_of_plain [OF assms(1,2,3), of neg] by simp
qed


lemma parse_decimal_text:
  assumes "0 < s" and "s mod 10 \<noteq> 0" and "\<not> overflows s q" and "delimited rest"
  shows "parse_unsigned neg (decimal_text s q @ rest) = Some (JNum (Finite neg s q), rest)"
proof -
  let ?ds = "digits s"
  define k where "k = length ?ds"
  define n where "n = int k + q"
  have q: "q = n - int k"
    by (simp add: n_def)
  have k: "0 < k"
    using digits_facts(4) [OF assms(1)] by (simp add: k_def)
  consider (integer) "int k \<le> n" "n \<le> 21"
    | (point) "\<not> (int k \<le> n \<and> n \<le> 21)" "0 < n" "n \<le> 21"
    | (small) "\<not> (int k \<le> n \<and> n \<le> 21)" "\<not> (0 < n \<and> n \<le> 21)" "- 6 < n" "n \<le> 0"
    | (one) "\<not> (int k \<le> n \<and> n \<le> 21)" "\<not> (0 < n \<and> n \<le> 21)" "\<not> (- 6 < n \<and> n \<le> 0)" "k = 1"
    | (many) "\<not> (int k \<le> n \<and> n \<le> 21)" "\<not> (0 < n \<and> n \<le> 21)" "\<not> (- 6 < n \<and> n \<le> 0)" "k \<noteq> 1"
    by blast
  then show ?thesis
  proof cases
    case integer
    then have t: "decimal_text s q = ?ds @ replicate (nat q) (CHR ''0'')"
      unfolding n_def k_def by (auto simp: decimal_text_def Let_def)
    from integer have z: "0 \<le> q"
      by (simp add: q)
    show ?thesis
      unfolding t using parse_integer_form [OF assms(1,2) _ assms(4), of "nat q" neg] assms(3) z
      by simp
  next
    case point
    then have t: "decimal_text s q = take (nat n) ?ds @ CHR ''.'' # drop (nat n) ?ds"
      unfolding n_def k_def by (auto simp: decimal_text_def Let_def)
    from point have m: "0 < nat n" "nat n < length ?ds"
      and e: "0 \<le> n" "n - int (length ?ds) = q"
      by (auto simp: q k_def)
    show ?thesis
      unfolding t using parse_point_form [OF assms(1,2) _ assms(4) m, of neg] assms(3) e
      by simp
  next
    case small
    then have t: "decimal_text s q = ''0.'' @ replicate (nat (- n)) (CHR ''0'') @ ?ds"
      unfolding n_def k_def by (auto simp: decimal_text_def Let_def)
    from small have z: "n \<le> 0" "n - int (length ?ds) = q"
      by (simp_all add: q k_def)
    show ?thesis
      unfolding t using parse_small_form [OF assms(1,2) _ assms(4), of "nat (- n)" neg] assms(3) z
      by simp
  next
    case one
    then have t: "decimal_text s q = ?ds @ CHR ''e'' # exponent_text (n - 1)"
      unfolding n_def k_def by (auto simp: decimal_text_def Let_def)
    from one have e: "n - 1 = q"
      by (simp add: q)
    show ?thesis
      unfolding t using parse_exponent_form_one [OF assms(1,2) _ assms(4), of "n - 1" neg] assms(3)
      by (simp add: e)
  next
    case many
    then have t: "decimal_text s q
        = take 1 ?ds @ CHR ''.'' # drop 1 ?ds @ CHR ''e'' # exponent_text (n - 1)"
      unfolding n_def k_def by (auto simp: decimal_text_def Let_def)
    from many k have l: "1 < length ?ds"
      unfolding k_def by linarith
    have e: "n - int (length ?ds) = q"
      by (simp add: q k_def)
    show ?thesis
      unfolding t
      using parse_exponent_form_many [OF assms(1,2) _ assms(4) l, of "n - 1" neg] assms(3) e
      by simp
  qed
qed

lemma decimal_text_starts_with_digit:
  assumes "0 < s"
  shows "decimal_text s q \<noteq> [] \<and> is_digit (hd (decimal_text s q))"
proof -
  let ?ds = "digits s"
  obtain d r where ds: "?ds = d # r"
    using digits_nonempty [of s] by (cases ?ds) auto
  then have d: "is_digit d"
    using digits_are_digits [of d s] by simp
  have "take (nat n) ?ds = d # take (nat n - 1) r" if "0 < n" for n :: int
    using that by (simp add: ds take_Cons')
  with d show ?thesis
    by (auto simp: decimal_text_def Let_def ds is_digit_zero)
qed

lemma parse_number_text:
  assumes "printable x" and "delimited rest"
  shows "parse_number (number_text x @ rest) = Some (JNum x, rest)"
proof (cases x)
  case (Infinite neg)
  with assms show ?thesis by simp
next
  case (Finite neg s q)
  show ?thesis
  proof (cases "s = 0")
    case True
    with assms(1) Finite have x: "x = Finite False 0 0"
      by simp
    have z: "\<And>c. c \<in> set ''0'' \<Longrightarrow> is_digit c"
      by (simp add: is_digit_zero)
    from parse_unsigned_parts [where neg = False and ip = "''0''", OF z _ _
        delimited_not_digit [OF assms(2)]
        parse_fraction_none [OF delimited_no_point [OF assms(2)]]
        parse_exponent_none [OF assms(2)]]
    have "parse_unsigned False (''0'' @ rest) = Some (JNum (Finite False 0 0), rest)"
      by (simp add: digits_value_def number_of_def)
    then show ?thesis
      by (simp add: x parse_number_def)
  next
    case False
    with assms(1) Finite have s: "0 < s" "s mod 10 \<noteq> 0" "\<not> overflows s q"
      by simp_all
    from decimal_text_starts_with_digit [OF s(1), of q]
    obtain d r where t: "decimal_text s q = d # r" and d: "is_digit d"
      by (cases "decimal_text s q") auto
    from d have nm: "d \<noteq> CHR ''-''"
      by (auto simp: is_digit_def)
    show ?thesis
    proof (cases neg)
      case True
      then show ?thesis
        using parse_decimal_text [OF s assms(2), of True] False
        by (simp add: Finite parse_number_def)
    next
      case False
      then show ?thesis
        using parse_decimal_text [OF s assms(2), of False] \<open>s \<noteq> 0\<close> nm
        by (simp add: Finite parse_number_def t)
    qed
  qed
qed

lemma number_text_start:
  assumes "printable x"
  shows "number_text x \<noteq> [] \<and> (hd (number_text x) = CHR ''-'' \<or> is_digit (hd (number_text x)))"
proof (cases x)
  case (Infinite neg)
  with assms show ?thesis by simp
next
  case (Finite neg s q)
  show ?thesis
  proof (cases "s = 0")
    case True
    then show ?thesis by (simp add: Finite is_digit_zero)
  next
    case False
    then show ?thesis
      using decimal_text_starts_with_digit [of s q] by (simp add: Finite)
  qed
qed

lemma parse_value_number:
  "s \<noteq> [] \<Longrightarrow> hd s = CHR ''-'' \<or> is_digit (hd s) \<Longrightarrow> parse_value (Suc m) s = parse_number s"
proof -
  assume "s \<noteq> []" and first: "hd s = CHR ''-'' \<or> is_digit (hd s)"
  then obtain c r where s: "s = c # r" by (cases s) auto
  from first have "\<not> is_ws c \<and> c \<noteq> CHR ''['' \<and> c \<noteq> CHR ''{'' \<and> c \<noteq> CHR 0x22
      \<and> c \<noteq> CHR ''t'' \<and> c \<noteq> CHR ''f'' \<and> c \<noteq> CHR ''n''"
    unfolding s by (auto simp: is_digit_def is_ws_def)
  then show ?thesis
    unfolding s by simp
qed

lemma parse_value_number_text:
  "printable x \<Longrightarrow> delimited rest \<Longrightarrow>
   parse_value (Suc m) (number_text x @ rest) = Some (JNum x, rest)"
  using number_text_start [of x] parse_value_number [of "number_text x @ rest" m]
  by (simp add: parse_number_text)

lemma parse_value_blank: "blank ws \<Longrightarrow> parse_value n (ws @ s) = parse_value n s"
proof (cases n)
  case 0
  then show ?thesis by simp
next
  case (Suc m)
  assume "blank ws"
  then have "dropWhile is_ws (ws @ s) = dropWhile is_ws s"
    by (induction ws) (auto simp: blank_def)
  with Suc show ?thesis by simp
qed

lemma join_Cons: "ts \<noteq> [] \<Longrightarrow> join sep (t # ts) = t @ sep @ join sep ts"
  by (cases ts) simp_all

lemma starts_value_append: "starts_value t \<Longrightarrow> starts_value (t @ s)"
  by (cases t) (simp_all add: starts_value_def)

lemma starts_value_nonempty: "starts_value t \<Longrightarrow> 0 < length t"
  by (cases t) (simp_all add: starts_value_def)

lemma blank_simps: "blank []" "blank (c # s) = (is_ws c \<and> blank s)"
  "blank (s @ t) = (blank s \<and> blank t)" "blank ''  ''"
  by (simp_all add: blank_def is_ws_def)

lemma object_of_distinct_aux:
  "distinct (map fst (acc @ kvs)) \<Longrightarrow>
   foldl (\<lambda>obj kv. define_property (fst kv) (snd kv) obj) acc kvs = acc @ kvs"
proof (induction kvs arbitrary: acc)
  case Nil
  then show ?case by simp
next
  case (Cons kv kvs)
  have fresh: "fst kv \<notin> fst ` set acc"
    using Cons.prems by auto
  have "define_property k v acc = acc @ [(k, v)]" if "k \<notin> fst ` set acc" for k v
    using that by (induction acc) auto
  with fresh have step: "define_property (fst kv) (snd kv) acc = acc @ [kv]"
    by simp
  from Cons.prems have "distinct (map fst ((acc @ [kv]) @ kvs))"
    by simp
  from Cons.IH [OF this] step show ?case
    by simp
qed

lemma object_of_distinct: "distinct (map fst kvs) \<Longrightarrow> object_of kvs = JObj kvs"
  using object_of_distinct_aux [of "[]" kvs] by (simp add: object_of_def)


lemma dropWhile_blank_char:
  "blank ws \<Longrightarrow> \<not> is_ws c \<Longrightarrow> dropWhile is_ws (ws @ c # s) = c # s"
  by (induction ws) (auto simp: blank_def)

lemma not_ws_punctuation:
  "\<not> is_ws (CHR '']'')" "\<not> is_ws (CHR ''}'')" "\<not> is_ws (CHR '','')" "\<not> is_ws (CHR '':'')"
  "\<not> is_ws (CHR 0x22)" "\<not> is_ws (CHR ''['')" "\<not> is_ws (CHR ''{'')"
  "is_ws (CHR 0x0A)" "is_ws (CHR '' '')"
  by (simp_all add: is_ws_def)

lemma parse_last_element:
  assumes px: "\<And>n rest. length tx \<le> n \<Longrightarrow> delimited rest \<Longrightarrow> parse_value n (tx @ rest) = Some (x, rest)"
    and "blank ws" and "blank stepback" and fuel: "length tx < n"
  shows "parse_elements n (ws @ tx @ CHR 0x0A # stepback @ CHR '']'' # rest) = Some ([x], rest)"
proof -
  from fuel obtain m where n: "n = Suc m" and m: "length tx \<le> m"
    by (cases n) auto
  have v: "parse_value m (ws @ tx @ CHR 0x0A # stepback @ CHR '']'' # rest)
      = Some (x, CHR 0x0A # stepback @ CHR '']'' # rest)"
    using px [OF m, of "CHR 0x0A # stepback @ CHR '']'' # rest"] \<open>blank ws\<close>
    by (simp add: parse_value_blank delimited_simps)
  have "blank (CHR 0x0A # stepback)"
    using \<open>blank stepback\<close> by (simp add: blank_simps not_ws_punctuation)
  from dropWhile_blank_char [OF this not_ws_punctuation(1), of rest]
  have d: "dropWhile is_ws (CHR 0x0A # stepback @ CHR '']'' # rest) = CHR '']'' # rest"
    by simp
  show ?thesis
    unfolding n parse_elements.simps v by (simp add: d del: dropWhile.simps)
qed

lemma parse_next_element:
  assumes px: "\<And>n rest. length tx \<le> n \<Longrightarrow> delimited rest \<Longrightarrow> parse_value n (tx @ rest) = Some (x, rest)"
    and pxs: "\<And>n ws. length body < n \<Longrightarrow> blank ws \<Longrightarrow>
        parse_elements n (ws @ body @ tail) = Some (xs, rest)"
    and "blank ws" and "blank ind" and "0 < length tx"
    and fuel: "length tx + length body < n"
  shows "parse_elements n (ws @ tx @ (CHR '','' # CHR 0x0A # ind) @ body @ tail) = Some (x # xs, rest)"
proof -
  from fuel \<open>0 < length tx\<close> obtain m where n: "n = Suc m" and m: "length tx \<le> m"
    and m': "length body < m"
    by (cases n) auto
  let ?after = "CHR '','' # CHR 0x0A # ind @ body @ tail"
  have v: "parse_value m (ws @ tx @ (CHR '','' # CHR 0x0A # ind) @ body @ tail) = Some (x, ?after)"
    using px [OF m, of ?after] \<open>blank ws\<close>
    by (simp add: parse_value_blank delimited_simps)
  have "blank (CHR 0x0A # ind)"
    using \<open>blank ind\<close> by (simp add: blank_simps not_ws_punctuation)
  from pxs [OF m' this]
  have r: "parse_elements m (CHR 0x0A # ind @ body @ tail) = Some (xs, rest)"
    by simp
  show ?thesis
    unfolding n parse_elements.simps v
    by (simp add: not_ws_punctuation r del: dropWhile.simps) (simp add: not_ws_punctuation r)
qed


lemma parse_member_head:
  assumes pv: "\<And>n rest. length tv \<le> n \<Longrightarrow> delimited rest \<Longrightarrow> parse_value n (tv @ rest) = Some (v, rest)"
    and "blank ws" and m: "length tv \<le> m" and "delimited after"
  shows "parse_members (Suc m) (ws @ (quote k @ '': '' @ tv) @ after)
    = (case dropWhile is_ws after of
         [] \<Rightarrow> None
       | c' # r4 \<Rightarrow>
           if c' = CHR '','' then map_option (\<lambda>(kvs, t). ((k, v) # kvs, t)) (parse_members m r4)
           else if c' = CHR ''}'' then Some ([(k, v)], r4)
           else None)"
proof -
  let ?key = "concat (map quote_char k)"
  have whole: "ws @ (quote k @ '': '' @ tv) @ after
      = ws @ CHR 0x22 # (?key @ CHR 0x22 # CHR '':'' # CHR '' '' # tv @ after)"
    by (simp add: quote_def)
  have d1: "dropWhile is_ws (ws @ CHR 0x22 # (?key @ CHR 0x22 # CHR '':'' # CHR '' '' # tv @ after))
      = CHR 0x22 # (?key @ CHR 0x22 # CHR '':'' # CHR '' '' # tv @ after)"
    using \<open>blank ws\<close> by (rule dropWhile_blank_char) (rule not_ws_punctuation)
  have k: "parse_chars (?key @ CHR 0x22 # CHR '':'' # CHR '' '' # tv @ after)
      = Some (k, CHR '':'' # CHR '' '' # tv @ after)"
    by (rule parse_chars_quote)
  have d2: "dropWhile is_ws (CHR '':'' # CHR '' '' # tv @ after) = CHR '':'' # CHR '' '' # tv @ after"
    by (simp add: not_ws_punctuation)
  have "blank '' ''"
    by (simp add: blank_simps not_ws_punctuation)
  then have v: "parse_value m (CHR '' '' # tv @ after) = Some (v, after)"
    using pv [OF m \<open>delimited after\<close>] parse_value_blank [of "'' ''" m "tv @ after"]
    by simp
  show ?thesis
    unfolding whole parse_members.simps d1 list.case k option.case prod.case d2 v
    by simp
qed

lemma parse_last_member:
  assumes pv: "\<And>n rest. length tv \<le> n \<Longrightarrow> delimited rest \<Longrightarrow> parse_value n (tv @ rest) = Some (v, rest)"
    and "blank ws" and "blank stepback" and fuel: "length tv < n"
  shows "parse_members n (ws @ (quote k @ '': '' @ tv) @ CHR 0x0A # stepback @ CHR ''}'' # rest)
    = Some ([(k, v)], rest)"
proof -
  from fuel obtain m where n: "n = Suc m" and m: "length tv \<le> m"
    by (cases n) auto
  have "blank (CHR 0x0A # stepback)"
    using \<open>blank stepback\<close> by (simp add: blank_simps not_ws_punctuation)
  from dropWhile_blank_char [OF this not_ws_punctuation(2), of rest]
  have d: "dropWhile is_ws (CHR 0x0A # stepback @ CHR ''}'' # rest) = CHR ''}'' # rest"
    by simp
  note H = parse_member_head [where after = "CHR 0x0A # stepback @ CHR ''}'' # rest" and k = k,
      OF pv \<open>blank ws\<close> m delimited_simps(3), unfolded d]
  from H show ?thesis
    by (simp add: n)
qed

lemma parse_next_member:
  assumes pv: "\<And>n rest. length tv \<le> n \<Longrightarrow> delimited rest \<Longrightarrow> parse_value n (tv @ rest) = Some (v, rest)"
    and pkvs: "\<And>n ws. length body < n \<Longrightarrow> blank ws \<Longrightarrow>
        parse_members n (ws @ body @ tail) = Some (kvs, rest)"
    and "blank ws" and "blank ind" and "0 < length tv"
    and fuel: "length tv + length body < n"
  shows "parse_members n (ws @ (quote k @ '': '' @ tv) @ (CHR '','' # CHR 0x0A # ind) @ body @ tail)
    = Some ((k, v) # kvs, rest)"
proof -
  from fuel \<open>0 < length tv\<close> obtain m where n: "n = Suc m" and m: "length tv \<le> m"
    and m': "length body < m"
    by (cases n) auto
  have "blank (CHR 0x0A # ind)"
    using \<open>blank ind\<close> by (simp add: blank_simps not_ws_punctuation)
  from pkvs [OF m' this]
  have r: "parse_members m (CHR 0x0A # ind @ body @ tail) = Some (kvs, rest)"
    by simp
  have d: "dropWhile is_ws (CHR '','' # CHR 0x0A # ind @ body @ tail)
      = CHR '','' # CHR 0x0A # ind @ body @ tail"
    by (simp add: not_ws_punctuation)
  note H = parse_member_head [where after = "CHR '','' # CHR 0x0A # ind @ body @ tail" and k = k,
      OF pv \<open>blank ws\<close> m delimited_simps(2), unfolded d]
  from H show ?thesis
    by (simp add: n r)
qed


lemma parse_value_bracket:
  "dropWhile is_ws r = c # r' \<Longrightarrow> c \<noteq> CHR '']'' \<Longrightarrow> parse_elements m r = Some (xs, t) \<Longrightarrow>
   parse_value (Suc m) (CHR ''['' # r) = Some (JArr xs, t)"
  by (simp add: not_ws_punctuation)

lemma parse_value_brace:
  "dropWhile is_ws r = c # r' \<Longrightarrow> c \<noteq> CHR ''}'' \<Longrightarrow> parse_members m r = Some (kvs, t) \<Longrightarrow>
   parse_value (Suc m) (CHR ''{'' # r) = Some (object_of kvs, t)"
  by (simp add: not_ws_punctuation)

lemma parse_array:
  assumes "starts_value body"
    and pxs: "\<And>n ws stepback rest. length body < n \<Longrightarrow> blank ws \<Longrightarrow> blank stepback \<Longrightarrow>
        parse_elements n (ws @ body @ CHR 0x0A # stepback @ CHR '']'' # rest) = Some (xs, rest)"
    and "blank ind" and fuel: "length body + 2 \<le> n"
  shows "parse_value n (CHR ''['' # CHR 0x0A # (ind @ ''  '') @ body @ CHR 0x0A # ind @ CHR '']'' # rest)
    = Some (JArr xs, rest)"
proof -
  from fuel obtain m where n: "n = Suc m" and m: "length body < m"
    by (cases n) auto
  let ?tail = "CHR 0x0A # ind @ CHR '']'' # rest"
  have ws: "blank (CHR 0x0A # (ind @ ''  ''))"
    using \<open>blank ind\<close> by (simp add: blank_simps not_ws_punctuation)
  from \<open>starts_value body\<close> obtain c b where body: "body = c # b"
    and c: "\<not> is_ws c" "c \<noteq> CHR '']''"
    by (cases body) (auto simp: starts_value_def)
  have d: "dropWhile is_ws (CHR 0x0A # (ind @ ''  '') @ body @ ?tail) = c # b @ ?tail"
    using dropWhile_blank_char [OF ws c(1), of "b @ ?tail"] by (simp add: body)
  have e: "parse_elements m (CHR 0x0A # (ind @ ''  '') @ body @ ?tail) = Some (xs, rest)"
    using pxs [OF m ws \<open>blank ind\<close>, of rest] by simp
  from parse_value_bracket [OF d c(2) e] show ?thesis
    by (simp add: n)
qed

lemma parse_object:
  assumes "starts_value body"
    and pkvs: "\<And>n ws stepback rest. length body < n \<Longrightarrow> blank ws \<Longrightarrow> blank stepback \<Longrightarrow>
        parse_members n (ws @ body @ CHR 0x0A # stepback @ CHR ''}'' # rest) = Some (kvs, rest)"
    and "blank ind" and fuel: "length body + 2 \<le> n" and "distinct (map fst kvs)"
  shows "parse_value n (CHR ''{'' # CHR 0x0A # (ind @ ''  '') @ body @ CHR 0x0A # ind @ CHR ''}'' # rest)
    = Some (JObj kvs, rest)"
proof -
  from fuel obtain m where n: "n = Suc m" and m: "length body < m"
    by (cases n) auto
  let ?tail = "CHR 0x0A # ind @ CHR ''}'' # rest"
  have ws: "blank (CHR 0x0A # (ind @ ''  ''))"
    using \<open>blank ind\<close> by (simp add: blank_simps not_ws_punctuation)
  from \<open>starts_value body\<close> obtain c b where body: "body = c # b"
    and c: "\<not> is_ws c" "c \<noteq> CHR ''}''"
    by (cases body) (auto simp: starts_value_def)
  have d: "dropWhile is_ws (CHR 0x0A # (ind @ ''  '') @ body @ ?tail) = c # b @ ?tail"
    using dropWhile_blank_char [OF ws c(1), of "b @ ?tail"] by (simp add: body)
  have e: "parse_members m (CHR 0x0A # (ind @ ''  '') @ body @ ?tail) = Some (kvs, rest)"
    using pkvs [OF m ws \<open>blank ind\<close>, of rest] by simp
  from parse_value_brace [OF d c(2) e] show ?thesis
    by (simp add: n object_of_distinct [OF \<open>distinct (map fst kvs)\<close>])
qed


lemma starts_value_number: "printable x \<Longrightarrow> starts_value (number_text x)"
proof -
  assume "printable x"
  from number_text_start [OF this] obtain c r where t: "number_text x = c # r"
    and c: "c = CHR ''-'' \<or> is_digit c"
    by (cases "number_text x") auto
  from c have "\<not> is_ws c \<and> c \<noteq> CHR '']'' \<and> c \<noteq> CHR ''}''"
    by (auto simp: is_digit_def is_ws_def)
  then show ?thesis
    by (simp add: t starts_value_def)
qed

lemma parse_scalar:
  assumes "0 < n" and "delimited rest"
  shows "parse_value n (''null'' @ rest) = Some (JNull, rest)"
    and "parse_value n (''true'' @ rest) = Some (JBool True, rest)"
    and "parse_value n (''false'' @ rest) = Some (JBool False, rest)"
    and "printable x \<Longrightarrow> parse_value n (number_text x @ rest) = Some (JNum x, rest)"
    and "parse_value n (quote s @ rest) = Some (JStr s, rest)"
proof -
  from \<open>0 < n\<close> obtain m where n: "n = Suc m"
    by (cases n) auto
  show "parse_value n (''null'' @ rest) = Some (JNull, rest)"
    by (simp add: n is_ws_def literal_def)
  show "parse_value n (''true'' @ rest) = Some (JBool True, rest)"
    by (simp add: n is_ws_def literal_def)
  show "parse_value n (''false'' @ rest) = Some (JBool False, rest)"
    by (simp add: n is_ws_def literal_def)
  show "printable x \<Longrightarrow> parse_value n (number_text x @ rest) = Some (JNum x, rest)"
    using parse_value_number_text [of x rest m] \<open>delimited rest\<close> by (simp add: n)
  show "parse_value n (quote s @ rest) = Some (JStr s, rest)"
    by (simp add: n quote_def is_ws_def parse_chars_quote)
qed

lemma join_starts_value: "starts_value (join sep ts) \<Longrightarrow> ts \<noteq> []"
  by (cases ts) (simp_all add: starts_value_def)

lemma serialize_parses:
  shows "blank ind \<Longrightarrow> json_value v \<Longrightarrow>
     (\<exists>t. serialize ind v = Some t \<and> starts_value t \<and>
        (\<forall>n rest. length t \<le> n \<longrightarrow> delimited rest \<longrightarrow> parse_value n (t @ rest) = Some (v, rest)))"
  and "blank ind \<Longrightarrow> json_values xs \<Longrightarrow> xs \<noteq> [] \<Longrightarrow>
     starts_value (join (CHR '','' # CHR 0x0A # ind) (serialize_elements ind xs)) \<and>
     (\<forall>n ws stepback rest.
        length (join (CHR '','' # CHR 0x0A # ind) (serialize_elements ind xs)) < n \<longrightarrow>
        blank ws \<longrightarrow> blank stepback \<longrightarrow>
        parse_elements n (ws @ join (CHR '','' # CHR 0x0A # ind) (serialize_elements ind xs)
                          @ CHR 0x0A # stepback @ CHR '']'' # rest) = Some (xs, rest))"
  and "blank ind \<Longrightarrow> json_members kvs \<Longrightarrow> kvs \<noteq> [] \<Longrightarrow>
     starts_value (join (CHR '','' # CHR 0x0A # ind) (serialize_members ind kvs)) \<and>
     (\<forall>n ws stepback rest.
        length (join (CHR '','' # CHR 0x0A # ind) (serialize_members ind kvs)) < n \<longrightarrow>
        blank ws \<longrightarrow> blank stepback \<longrightarrow>
        parse_members n (ws @ join (CHR '','' # CHR 0x0A # ind) (serialize_members ind kvs)
                         @ CHR 0x0A # stepback @ CHR ''}'' # rest) = Some (kvs, rest))"
proof (induction ind v and ind xs and ind kvs
    rule: serialize_serialize_elements_serialize_members.induct)
  case (1 ind)
  then show ?case by simp
next
  case (2 ind)
  have "starts_value ''null''" by (simp add: starts_value_def is_ws_def)
  then show ?case
    using parse_scalar(1) by auto
next
  case (3 ind b)
  have "starts_value ''true''" "starts_value ''false''"
    by (simp_all add: starts_value_def is_ws_def)
  then show ?case
    using parse_scalar(2,3) by (cases b) auto
next
  case (4 ind x)
  then have p: "printable x"
    by simp
  have len: "0 < length (number_text x)"
    using starts_value_number [OF p] by (rule starts_value_nonempty)
  have "parse_value n (number_text x @ rest) = Some (JNum x, rest)"
    if "length (number_text x) \<le> n" "delimited rest" for n rest
  proof -
    from len that(1) have "0 < n" by linarith
    then show ?thesis using that(2) p by (rule parse_scalar(4))
  qed
  then show ?case
    using starts_value_number [OF p] by simp
next
  case (5 ind s)
  have "starts_value (quote s)"
    by (simp add: quote_def starts_value_def is_ws_def)
  moreover have len: "0 < length (quote s)"
    by (simp add: quote_def)
  have "parse_value n (quote s @ rest) = Some (JStr s, rest)"
    if "length (quote s) \<le> n" "delimited rest" for n rest
  proof -
    from len that(1) have "0 < n" by linarith
    then show ?thesis using that(2) by (rule parse_scalar(5))
  qed
  ultimately show ?case
    by simp
next
  case (6 ind xs)
  show ?case
  proof (cases "xs = []")
    case True
    have "parse_value n (''[]'' @ rest) = Some (JArr [], rest)" if "2 \<le> n" for n rest
    proof -
      from that obtain m where "n = Suc m" by (cases n) auto
      then show ?thesis by (simp add: is_ws_def)
    qed
    then show ?thesis
      using True by (simp add: wrap_def starts_value_def is_ws_def)
  next
    case False
    let ?body = "join (CHR '','' # CHR 0x0A # ind @ ''  '') (serialize_elements (ind @ ''  '') xs)"
    from "6.prems" have b: "blank (ind @ ''  '')" and js: "json_values xs"
      by (simp_all add: blank_simps not_ws_punctuation)
    from "6.IH" [OF b js False]
    have sv: "starts_value ?body"
      and pxs: "\<And>n ws stepback rest. length ?body < n \<Longrightarrow> blank ws \<Longrightarrow> blank stepback \<Longrightarrow>
        parse_elements n (ws @ ?body @ CHR 0x0A # stepback @ CHR '']'' # rest) = Some (xs, rest)"
      by simp_all
    from sv have ne: "serialize_elements (ind @ ''  '') xs \<noteq> []"
      by (rule join_starts_value)
    let ?t = "CHR ''['' # CHR 0x0A # (ind @ ''  '') @ ?body @ CHR 0x0A # ind @ '']''"
    have t: "serialize ind (JArr xs) = Some ?t"
      using ne by (simp add: wrap_def)
    have "parse_value n (?t @ rest) = Some (JArr xs, rest)" if "length ?t \<le> n" for n rest
      using parse_array [OF sv pxs \<open>blank ind\<close>, of n rest] that by simp
    moreover have "starts_value ?t"
      by (simp add: starts_value_def is_ws_def)
    ultimately show ?thesis
      using t by blast
  qed
next
  case (7 ind kvs)
  show ?case
  proof (cases "kvs = []")
    case True
    have "parse_value n (''{}'' @ rest) = Some (JObj [], rest)" if "2 \<le> n" for n rest
    proof -
      from that obtain m where "n = Suc m" by (cases n) auto
      then show ?thesis by (simp add: is_ws_def)
    qed
    then show ?thesis
      using True by (simp add: wrap_def starts_value_def is_ws_def)
  next
    case False
    let ?body = "join (CHR '','' # CHR 0x0A # ind @ ''  '') (serialize_members (ind @ ''  '') kvs)"
    from "7.prems" have b: "blank (ind @ ''  '')" and js: "json_members kvs"
      and dist: "distinct (map fst kvs)"
      by (simp_all add: blank_simps not_ws_punctuation)
    from "7.IH" [OF b js False]
    have sv: "starts_value ?body"
      and pkvs: "\<And>n ws stepback rest. length ?body < n \<Longrightarrow> blank ws \<Longrightarrow> blank stepback \<Longrightarrow>
        parse_members n (ws @ ?body @ CHR 0x0A # stepback @ CHR ''}'' # rest) = Some (kvs, rest)"
      by simp_all
    from sv have ne: "serialize_members (ind @ ''  '') kvs \<noteq> []"
      by (rule join_starts_value)
    let ?t = "CHR ''{'' # CHR 0x0A # (ind @ ''  '') @ ?body @ CHR 0x0A # ind @ ''}''"
    have t: "serialize ind (JObj kvs) = Some ?t"
      using ne by (simp add: wrap_def)
    have "parse_value n (?t @ rest) = Some (JObj kvs, rest)" if "length ?t \<le> n" for n rest
      using parse_object [OF sv pkvs \<open>blank ind\<close> _ dist, of n rest] that by simp
    moreover have "starts_value ?t"
      by (simp add: starts_value_def is_ws_def)
    ultimately show ?thesis
      using t by blast
  qed
next
  case (8 ind)
  then show ?case by simp
next
  case (9 ind x xs)
  from "9.prems" have jx: "json_value x" and jxs: "json_values xs"
    by simp_all
  from "9.IH"(1) [OF \<open>blank ind\<close> jx] obtain tx where tx: "serialize ind x = Some tx"
    and sx: "starts_value tx"
    and px: "\<And>n rest. length tx \<le> n \<Longrightarrow> delimited rest \<Longrightarrow> parse_value n (tx @ rest) = Some (x, rest)"
    by blast
  let ?sep = "CHR '','' # CHR 0x0A # ind"
  show ?case
  proof (cases "xs = []")
    case True
    then have j: "join ?sep (serialize_elements ind (x # xs)) = tx"
      by (simp add: tx)
    show ?thesis
      unfolding j using True sx parse_last_element [OF px] by auto
  next
    case False
    let ?body = "join ?sep (serialize_elements ind xs)"
    from "9.IH"(2) [OF \<open>blank ind\<close> jxs False]
    have sv: "starts_value ?body"
      and pxs: "\<And>n ws stepback rest. length ?body < n \<Longrightarrow> blank ws \<Longrightarrow> blank stepback \<Longrightarrow>
        parse_elements n (ws @ ?body @ CHR 0x0A # stepback @ CHR '']'' # rest) = Some (xs, rest)"
      by simp_all
    from sv have ne: "serialize_elements ind xs \<noteq> []"
      by (rule join_starts_value)
    have j: "join ?sep (serialize_elements ind (x # xs)) = tx @ ?sep @ ?body"
      using ne by (simp add: tx join_Cons)
    have "parse_elements n (ws @ (tx @ ?sep @ ?body) @ CHR 0x0A # stepback @ CHR '']'' # rest)
        = Some (x # xs, rest)"
      if "length (tx @ ?sep @ ?body) < n" "blank ws" "blank stepback" for n ws stepback rest
    proof -
      have tail: "parse_elements n' (ws' @ ?body @ (CHR 0x0A # stepback @ CHR '']'' # rest))
          = Some (xs, rest)" if "length ?body < n'" "blank ws'" for n' ws'
        using pxs [OF that \<open>blank stepback\<close>] by simp
      from that(1) have fuel: "length tx + length ?body < n"
        by simp
      show ?thesis
        using parse_next_element [OF px tail \<open>blank ws\<close> \<open>blank ind\<close>
            starts_value_nonempty [OF sx] fuel]
        by simp
    qed
    then show ?thesis
      unfolding j using starts_value_append [OF sx] by blast
  qed
next
  case (10 ind)
  then show ?case by simp
next
  case (11 ind k v kvs)
  from "11.prems" have jv: "json_value v" and jkvs: "json_members kvs"
    by simp_all
  from "11.IH"(1) [OF \<open>blank ind\<close> jv] obtain tv where tv: "serialize ind v = Some tv"
    and sv: "starts_value tv"
    and pv: "\<And>n rest. length tv \<le> n \<Longrightarrow> delimited rest \<Longrightarrow> parse_value n (tv @ rest) = Some (v, rest)"
    by blast
  let ?sep = "CHR '','' # CHR 0x0A # ind"
  let ?member = "quote k @ '': '' @ tv"
  have sm: "starts_value ?member"
    by (simp add: quote_def starts_value_def is_ws_def)
  show ?case
  proof (cases "kvs = []")
    case True
    then have j: "join ?sep (serialize_members ind ((k, v) # kvs)) = ?member"
      by (simp add: tv)
    have "parse_members n (ws @ ?member @ CHR 0x0A # stepback @ CHR ''}'' # rest)
        = Some ([(k, v)], rest)"
      if "length ?member < n" "blank ws" "blank stepback" for n ws stepback rest
      using parse_last_member [OF pv that(2,3), of n k rest] that(1) by simp
    then show ?thesis
      unfolding j using True sm by blast
  next
    case False
    let ?body = "join ?sep (serialize_members ind kvs)"
    from "11.IH"(3) [OF tv \<open>blank ind\<close> jkvs False]
    have sb: "starts_value ?body"
      and pkvs: "\<And>n ws stepback rest. length ?body < n \<Longrightarrow> blank ws \<Longrightarrow> blank stepback \<Longrightarrow>
        parse_members n (ws @ ?body @ CHR 0x0A # stepback @ CHR ''}'' # rest) = Some (kvs, rest)"
      by simp_all
    from sb have ne: "serialize_members ind kvs \<noteq> []"
      by (rule join_starts_value)
    have j: "join ?sep (serialize_members ind ((k, v) # kvs)) = ?member @ ?sep @ ?body"
      using ne by (simp add: tv join_Cons)
    have "parse_members n (ws @ (?member @ ?sep @ ?body) @ CHR 0x0A # stepback @ CHR ''}'' # rest)
        = Some ((k, v) # kvs, rest)"
      if "length (?member @ ?sep @ ?body) < n" "blank ws" "blank stepback" for n ws stepback rest
    proof -
      have tail: "parse_members n' (ws' @ ?body @ (CHR 0x0A # stepback @ CHR ''}'' # rest))
          = Some (kvs, rest)" if "length ?body < n'" "blank ws'" for n' ws'
        using pkvs [OF that \<open>blank stepback\<close>] by simp
      from that(1) have fuel: "length tv + length ?body < n"
        by simp
      show ?thesis
        using parse_next_member [OF pv tail \<open>blank ws\<close> \<open>blank ind\<close>
            starts_value_nonempty [OF sv] fuel, of k]
        by simp
    qed
    then show ?thesis
      unfolding j using starts_value_append [OF sm] by blast
  qed
qed

lemma JSON_roundtrip:
  "json_value v \<Longrightarrow> \<exists>t. JSON_stringify v = Some t \<and> JSON_parse t = Some v"
proof -
  assume "json_value v"
  from serialize_parses(1) [OF blank_simps(1) this] obtain t where t: "serialize [] v = Some t"
    and p: "\<And>n rest. length t \<le> n \<Longrightarrow> delimited rest \<Longrightarrow> parse_value n (t @ rest) = Some (v, rest)"
    by blast
  from p [of "Suc (length t)" "[]"] have "parse_value (Suc (length t)) t = Some (v, [])"
    by (simp add: delimited_simps)
  then have "JSON_parse t = Some v"
    by (simp add: JSON_parse_def)
  with t show ?thesis
    by (simp add: JSON_stringify_def)
qed

section \<open>The text of a successful call\<close>

text \<open>
  C6, as the code has it. With a credential configured, when the body is an envelope whose
  \<^verbatim>\<open>success\<close> is true, the handler returns one text block whose text is
  \<^verbatim>\<open>JSON.stringify(data.data, null, 2)\<close>. When the envelope has no \<^verbatim>\<open>data\<close> field, that text is
  undefined. When it has one whose Numbers are all finite and none the negative zero, the
  text exists and \<^verbatim>\<open>JSON.parse\<close> of it gives the \<^verbatim>\<open>data\<close> field back, value for value and in
  the same order of names, hence deep-equal.
\<close>

theorem success_text_is_data_and_parses_back:
  assumes "env ''TRADEKIX_API_KEY'' = Some k" and "k \<noteq> []"
    and "fetch (outbound k (endpoint_of c) (params_of c)) = Resolved resp"
    and "json resp = Inr (JObj kvs)"
    and "map_of kvs ''success'' = Some (JBool True)"
  shows "outcome (handler env fetch c)
           = Inr \<lparr>content = [\<lparr>type = ''text'',
                               text_field = JSON_stringify (read_prop (JObj kvs) ''data'')\<rparr>]\<rparr>
       \<and> (map_of kvs ''data'' = None \<longrightarrow>
            outcome (handler env fetch c)
              = Inr \<lparr>content = [\<lparr>type = ''text'', text_field = None\<rparr>]\<rparr>)
       \<and> (\<forall>d. map_of kvs ''data'' = Some d \<and> json_value d \<longrightarrow>
            (\<exists>t. outcome (handler env fetch c)
                   = Inr \<lparr>content = [\<lparr>type = ''text'', text_field = Some t\<rparr>]\<rparr>
                 \<and> JSON_stringify d = Some t \<and> JSON_parse t = Some d))"
proof -
  have "outcome (makeRequest env fetch (endpoint_of c) (params_of c))
      = Inr (read_prop (JObj kvs) ''data'')"
    using assms getApiKey_present [of env k]
    by (simp add: outbound_def outcome_makeRequest_parsed read_prop_def)
  then have out: "outcome (handler env fetch c)
      = Inr \<lparr>content = [\<lparr>type = ''text'',
                          text_field = JSON_stringify (read_prop (JObj kvs) ''data'')\<rparr>]\<rparr>"
    by (simp add: outcome_handler text_result_def)
  have absent: "outcome (handler env fetch c)
      = Inr \<lparr>content = [\<lparr>type = ''text'', text_field = None\<rparr>]\<rparr>"
    if "map_of kvs ''data'' = None"
    using out that by (simp add: read_prop_def JSON_stringify_def)
  have "\<exists>t. outcome (handler env fetch c)
              = Inr \<lparr>content = [\<lparr>type = ''text'', text_field = Some t\<rparr>]\<rparr>
            \<and> JSON_stringify d = Some t \<and> JSON_parse t = Some d"
    if "map_of kvs ''data'' = Some d" and "json_value d" for d
  proof -
    from JSON_roundtrip [OF that(2)] obtain t where "JSON_stringify d = Some t"
      and "JSON_parse t = Some d"
      by blast
    with out that(1) show ?thesis
      by (simp add: read_prop_def)
  qed
  with out absent show ?thesis
    by blast
qed

theorem success_text_is_data_and_parses_back_witness:
  \<open>outcome (handler (configured ''k'') (replying success_x1) News)
     = Inr \<lparr>content = [\<lparr>type = ''text'',
                         text_field = Some (''{'' @ [CHR 0x0A] @ ''  "x": 1'' @ [CHR 0x0A] @ ''}'')\<rparr>]\<rparr>
   \<and> JSON_parse (''{'' @ [CHR 0x0A] @ ''  "x": 1'' @ [CHR 0x0A] @ ''}'') = Some (JObj [(''x'', JNum (num 1))])
   \<and> outcome (handler (configured ''k'') (replying success_quote) News)
     = Inr \<lparr>content = [\<lparr>type = ''text'',
                         text_field = Some (''{'' @ [CHR 0x0A] @ ''  "price": 189.5,'' @ [CHR 0x0A]
                                            @ ''  "cap": 1e+21'' @ [CHR 0x0A] @ ''}'')\<rparr>]\<rparr>
   \<and> JSON_parse (''{'' @ [CHR 0x0A] @ ''  "price": 189.5,'' @ [CHR 0x0A]
                  @ ''  "cap": 1e+21'' @ [CHR 0x0A] @ ''}'')
     = Some (JObj [(''price'', JNum (Finite False 1895 (- 1))), (''cap'', JNum (Finite False 1 21))])\<close>
proof -
  let ?kvs = "[(''success'', JBool True), (''data'', JObj [(''x'', JNum (num 1))])]"
  let ?d = "JObj [(''x'', JNum (num 1))]"
  let ?kvs' = "[(''success'', JBool True),
     (''data'', JObj [(''price'', JNum (Finite False 1895 (- 1))),
                      (''cap'', JNum (Finite False 1 21))])]"
  let ?d' = "JObj [(''price'', JNum (Finite False 1895 (- 1))), (''cap'', JNum (Finite False 1 21))]"
  have key: "configured ''k'' ''TRADEKIX_API_KEY'' = Some ''k''" and ne: "''k'' \<noteq> []"
    by (simp_all add: configured_def)
  have reply: "replying success_x1 (outbound ''k'' (endpoint_of News) (params_of News))
      = Resolved \<lparr>status = 200, json = Inr (JObj ?kvs)\<rparr>"
    by (simp add: replying_def success_x1_def)
  have body: "json \<lparr>status = 200, json = Inr (JObj ?kvs)\<rparr> = Inr (JObj ?kvs)"
    by simp
  have flag: "map_of ?kvs ''success'' = Some (JBool True)"
    by simp
  have data: "map_of ?kvs ''data'' = Some ?d \<and> json_value ?d"
    by (simp add: num_values overflows_def)
  have printed: \<open>JSON_stringify ?d = Some (''{'' @ [CHR 0x0A] @ ''  "x": 1'' @ [CHR 0x0A] @ ''}'')\<close>
    by (simp add: JSON_stringify_def wrap_def quote_def quote_char_def number_text_values)
  from success_text_is_data_and_parses_back [of "configured ''k''" "''k''" "replying success_x1"
      News "\<lparr>status = 200, json = Inr (JObj ?kvs)\<rparr>" ?kvs, OF key ne reply body flag] data
  obtain t where "outcome (handler (configured ''k'') (replying success_x1) News)
      = Inr \<lparr>content = [\<lparr>type = ''text'', text_field = Some t\<rparr>]\<rparr>"
    and "JSON_stringify ?d = Some t" and "JSON_parse t = Some ?d"
    by blast
  with printed have one: \<open>outcome (handler (configured ''k'') (replying success_x1) News)
     = Inr \<lparr>content = [\<lparr>type = ''text'',
                         text_field = Some (''{'' @ [CHR 0x0A] @ ''  "x": 1'' @ [CHR 0x0A] @ ''}'')\<rparr>]\<rparr>
   \<and> JSON_parse (''{'' @ [CHR 0x0A] @ ''  "x": 1'' @ [CHR 0x0A] @ ''}'') = Some (JObj [(''x'', JNum (num 1))])\<close>
    by simp
  have reply': "replying success_quote (outbound ''k'' (endpoint_of News) (params_of News))
      = Resolved \<lparr>status = 200, json = Inr (JObj ?kvs')\<rparr>"
    by (simp add: replying_def success_quote_def)
  have body': "json \<lparr>status = 200, json = Inr (JObj ?kvs')\<rparr> = Inr (JObj ?kvs')"
    by simp
  have flag': "map_of ?kvs' ''success'' = Some (JBool True)"
    by simp
  have data': "map_of ?kvs' ''data'' = Some ?d' \<and> json_value ?d'"
    by (simp add: overflows_def)
  have printed': \<open>JSON_stringify ?d' = Some (''{'' @ [CHR 0x0A] @ ''  "price": 189.5,'' @ [CHR 0x0A]
                                            @ ''  "cap": 1e+21'' @ [CHR 0x0A] @ ''}'')\<close>
    by (simp add: JSON_stringify_def wrap_def quote_def quote_char_def decimal_text_def
        exponent_text_def digits_values Let_def)
  from success_text_is_data_and_parses_back [of "configured ''k''" "''k''" "replying success_quote"
      News "\<lparr>status = 200, json = Inr (JObj ?kvs')\<rparr>" ?kvs', OF key ne reply' body' flag'] data'
  obtain t' where "outcome (handler (configured ''k'') (replying success_quote) News)
      = Inr \<lparr>content = [\<lparr>type = ''text'', text_field = Some t'\<rparr>]\<rparr>"
    and "JSON_stringify ?d' = Some t'" and "JSON_parse t' = Some ?d'"
    by blast
  with printed' have two: \<open>outcome (handler (configured ''k'') (replying success_quote) News)
     = Inr \<lparr>content = [\<lparr>type = ''text'',
                         text_field = Some (''{'' @ [CHR 0x0A] @ ''  "price": 189.5,'' @ [CHR 0x0A]
                                            @ ''  "cap": 1e+21'' @ [CHR 0x0A] @ ''}'')\<rparr>]\<rparr>
   \<and> JSON_parse (''{'' @ [CHR 0x0A] @ ''  "price": 189.5,'' @ [CHR 0x0A]
                  @ ''  "cap": 1e+21'' @ [CHR 0x0A] @ ''}'')
     = Some (JObj [(''price'', JNum (Finite False 1895 (- 1))), (''cap'', JNum (Finite False 1 21))])\<close>
    by simp
  from one two show ?thesis
    by blast
qed

text \<open>
  C6 as stated fails in three ways. For the envelope \<^verbatim>\<open>{success: true}\<close> the text is
  undefined, so there is nothing to parse. The body \<^verbatim>\<open>{"success":true,"data":1e400}\<close> is read
  with the data Infinity, which is written \<^verbatim>\<open>null\<close>: the text parses to null, not to the
  data. The body \<^verbatim>\<open>{"success":true,"data":-0}\<close> is read with the data negative zero, which is
  written \<^verbatim>\<open>0\<close>: the text parses to the positive zero.
\<close>

theorem success_text_always_parses_back_counterexample:
  \<open>outcome (handler (configured ''k'') (replying success_no_data) News)
     = Inr \<lparr>content = [\<lparr>type = ''text'', text_field = None\<rparr>]\<rparr>
   \<and> JSON_parse overflowing_body
     = Some (JObj [(''success'', JBool True), (''data'', JNum (Infinite False))])
   \<and> outcome (handler (configured ''k'')
        (replying (JObj [(''success'', JBool True), (''data'', JNum (Infinite False))])) News)
     = Inr \<lparr>content = [\<lparr>type = ''text'', text_field = Some ''null''\<rparr>]\<rparr>
   \<and> JSON_parse ''null'' = Some JNull
   \<and> JSON_parse negative_zero_body
     = Some (JObj [(''success'', JBool True), (''data'', JNum (Finite True 0 0))])
   \<and> outcome (handler (configured ''k'')
        (replying (JObj [(''success'', JBool True), (''data'', JNum (Finite True 0 0))])) News)
     = Inr \<lparr>content = [\<lparr>type = ''text'', text_field = Some ''0''\<rparr>]\<rparr>
   \<and> JSON_parse ''0'' = Some (JNum (Finite False 0 0))\<close>
proof -
  have number: \<open>parse_number ''1e400}'' = Some (JNum (Infinite False), ''}'')\<close>
    by (simp add: parse_number_def parse_unsigned_def parse_fraction_def parse_exponent_def
        is_digit_def number_of_def strip_zeros.simps overflows_def digits_value_def Let_def)
  have body: \<open>JSON_parse overflowing_body
     = Some (JObj [(''success'', JBool True), (''data'', JNum (Infinite False))])\<close>
    by (simp add: overflowing_body_def JSON_parse_def number is_ws_def literal_def
        parse_chars.simps object_of_def prepend_def)
  have null: "JSON_parse ''null'' = Some JNull"
    by (simp add: JSON_parse_def is_ws_def literal_def)
  have absent: "outcome (handler (configured ''k'') (replying success_no_data) News)
     = Inr \<lparr>content = [\<lparr>type = ''text'', text_field = None\<rparr>]\<rparr>"
    by (simp add: outcome_handler text_result_def makeRequest_def getApiKey_configured
        replying_def success_no_data_def read_prop_def JSON_stringify_def)
  have infinite: "outcome (handler (configured ''k'')
        (replying (JObj [(''success'', JBool True), (''data'', JNum (Infinite False))])) News)
     = Inr \<lparr>content = [\<lparr>type = ''text'', text_field = Some ''null''\<rparr>]\<rparr>"
    by (simp add: outcome_handler text_result_def makeRequest_def getApiKey_configured
        replying_def read_prop_def JSON_stringify_def)
  have number': \<open>parse_number ''-0}'' = Some (JNum (Finite True 0 0), ''}'')\<close>
    by (simp add: parse_number_def parse_unsigned_def parse_fraction_def parse_exponent_def
        is_digit_def number_of_def digits_value_def Let_def)
  have body': \<open>JSON_parse negative_zero_body
     = Some (JObj [(''success'', JBool True), (''data'', JNum (Finite True 0 0))])\<close>
    by (simp add: negative_zero_body_def JSON_parse_def number' is_ws_def literal_def
        parse_chars.simps object_of_def prepend_def)
  have zero: "JSON_parse ''0'' = Some (JNum (Finite False 0 0))"
    by (simp add: JSON_parse_def is_ws_def literal_def parse_number_def parse_unsigned_def
        parse_fraction_def parse_exponent_def is_digit_def number_of_def digits_value_def Let_def)
  have negative: "outcome (handler (configured ''k'')
        (replying (JObj [(''success'', JBool True), (''data'', JNum (Finite True 0 0))])) News)
     = Inr \<lparr>content = [\<lparr>type = ''text'', text_field = Some ''0''\<rparr>]\<rparr>"
    by (simp add: outcome_handler text_result_def makeRequest_def getApiKey_configured
        replying_def read_prop_def JSON_stringify_def)
  from absent body infinite null body' negative zero show ?thesis
    by blast
qed

end
